theory Spec2Isabelle
  imports Main "HOL-Library.Word"
begin

section \<open>JavaScript strings and the library functions the scripts call\<close>

text \<open>
  A JavaScript string is modelled as a \<open>string\<close> (a list of \<open>char\<close>), one \<open>char\<close> for
  one UTF-16 code unit: the embedding covers the text whose code units lie between U+0000
  and U+00FF.  On that range the regular-expression classes are: \<open>\s\<close> (and what
  \<open>trim\<close> removes) = tab, LF, VT, FF, CR, space and the no-break space U+00A0; a line
  terminator (what \<open>.\<close> refuses and where \<open>^\<close> and \<open>$\<close> anchor under the \<open>m\<close> flag) =
  LF, CR; \<open>\w\<close> = the ASCII letters, the digits and the underscore.
\<close>

definition isLineTerminator :: "char \<Rightarrow> bool" where
  "isLineTerminator c = (c = CHR 0x0A \<or> c = CHR 0x0D)"

definition isSpace :: "char \<Rightarrow> bool" where
  "isSpace c = (c = CHR 0x09 \<or> c = CHR 0x0A \<or> c = CHR 0x0B \<or> c = CHR 0x0C
     \<or> c = CHR 0x0D \<or> c = CHR 0x20 \<or> c = CHR 0xA0)"

definition isLower :: "char \<Rightarrow> bool" where
  "isLower c = (97 \<le> (of_char c :: nat) \<and> (of_char c :: nat) \<le> 122)"

definition isUpper :: "char \<Rightarrow> bool" where
  "isUpper c = (65 \<le> (of_char c :: nat) \<and> (of_char c :: nat) \<le> 90)"

definition isDigit :: "char \<Rightarrow> bool" where
  "isDigit c = (48 \<le> (of_char c :: nat) \<and> (of_char c :: nat) \<le> 57)"

definition isWord :: "char \<Rightarrow> bool" where
  "isWord c = (isLower c \<or> isUpper c \<or> isDigit c \<or> c = CHR ''_'')"

text \<open>
  \<open>String.prototype.toUpperCase\<close> on one character: the ASCII letters and the letters
  U+00E0 to U+00FE (the division sign U+00F7 is none) have their upper-case form 32 below.
  The upper-case forms of U+00B5, U+00DF and U+00FF are not in the range (U+039C, the two
  letters \<open>SS\<close>, U+0178): these three are left as they are; the script applies
  \<open>toUpperCase\<close> to the first characters of the parts of the repository name, which the
  theorem on the default title and document number takes to be word characters.
\<close>

definition isLatin1Lower :: "char \<Rightarrow> bool" where
  "isLatin1Lower c = (224 \<le> (of_char c :: nat) \<and> (of_char c :: nat) \<le> 254 \<and> (of_char c :: nat) \<noteq> 247)"

definition toUpperCase_char :: "char \<Rightarrow> char" where
  "toUpperCase_char c =
     (if isLower c \<or> isLatin1Lower c then char_of ((of_char c :: nat) - 32) else c)"

definition toUpperCase :: "string \<Rightarrow> string" where
  "toUpperCase s = map toUpperCase_char s"

text \<open>\<open>s.split(c)\<close> with a one-character separator: never the empty array.\<close>

fun cons_hd :: "char \<Rightarrow> string list \<Rightarrow> string list" where
  "cons_hd c [] = [[c]]"
| "cons_hd c (p # ps) = (c # p) # ps"

fun split :: "char \<Rightarrow> string \<Rightarrow> string list" where
  "split sep [] = [[]]"
| "split sep (c # cs) = (if c = sep then [] # split sep cs else cons_hd c (split sep cs))"

text \<open>\<open>parts.join(sep)\<close>.\<close>

fun join :: "string \<Rightarrow> string list \<Rightarrow> string" where
  "join sep [] = []"
| "join sep [p] = p"
| "join sep (p # q # ps) = p @ sep @ join sep (q # ps)"

text \<open>\<open>.filter(Boolean)\<close> on an array of strings: the empty string is the falsy one.\<close>

definition filterBoolean :: "string list \<Rightarrow> string list" where
  "filterBoolean xs = filter (\<lambda>s. s \<noteq> []) xs"

text \<open>\<open>s.trim()\<close>: white space and line terminators off both ends.\<close>

definition trimStart :: "string \<Rightarrow> string" where
  "trimStart s = dropWhile isSpace s"

definition trimEnd :: "string \<Rightarrow> string" where
  "trimEnd s = rev (dropWhile isSpace (rev s))"

definition trim :: "string \<Rightarrow> string" where
  "trim s = trimEnd (trimStart s)"

text \<open>\<open>index.toString()\<close> of an array index: its decimal digits, no leading zero.\<close>

definition digit :: "nat \<Rightarrow> char" where
  "digit d =
     (if d = 0 then CHR ''0'' else if d = 1 then CHR ''1'' else if d = 2 then CHR ''2''
      else if d = 3 then CHR ''3'' else if d = 4 then CHR ''4'' else if d = 5 then CHR ''5''
      else if d = 6 then CHR ''6'' else if d = 7 then CHR ''7'' else if d = 8 then CHR ''8''
      else CHR ''9'')"

fun toString :: "nat \<Rightarrow> string" where
  "toString n = (if n < 10 then [digit n] else toString (n div 10) @ [digit (n mod 10)])"

declare toString.simps [simp del]

text \<open>\<open>path.join(dir, name)\<close> for a directory and a relative name without dots.\<close>

definition path_join :: "string \<Rightarrow> string \<Rightarrow> string" where
  "path_join dir name = dir @ ''/'' @ name"

text \<open>\<open>a || b\<close> on an optional string: \<open>undefined\<close> and the empty string are falsy.\<close>

definition or_else :: "string option \<Rightarrow> string \<Rightarrow> string" where
  "or_else a b = (case a of None \<Rightarrow> b | Some s \<Rightarrow> if s = [] then b else s)"

section \<open>Errors and the outside world\<close>

text \<open>
  \<open>execSync\<close> throws when the child process exits with a non-zero status (or cannot be
  spawned), \<open>fs.readFileSync\<close> throws when the file cannot be read.  A thrown exception is
  the \<open>Inl\<close> of a sum; \<open>try_catch\<close> is the \<open>try { } catch (e) { }\<close> statement.
\<close>

datatype error = ExecError nat | FsError

definition try_catch :: "error + 'a \<Rightarrow> (error \<Rightarrow> error + 'a) \<Rightarrow> error + 'a" where
  "try_catch body handler = (case body of Inl e \<Rightarrow> handler e | Inr v \<Rightarrow> Inr v)"

definition bind :: "error + 'a \<Rightarrow> ('a \<Rightarrow> error + 'b) \<Rightarrow> error + 'b" where
  "bind m f = (case m of Inl e \<Rightarrow> Inl e | Inr v \<Rightarrow> f v)"

type_synonym buffer = "8 word list"

text \<open>
  Everything the scripts read from outside: the file system of the source repository's
  working tree, the output of the child processes (keyed by the command line; the working
  directory is the source repository throughout), the clock, and Node's UTF-8 decoder.
\<close>

record world =
  SITE_DIR :: string
  SOURCE_REPO :: string
  existsSync :: "string \<Rightarrow> bool"
  readFileSync :: "string \<Rightarrow> error + string"
  execSync :: "string \<Rightarrow> error + string"
  execSyncBuffer :: "string \<Rightarrow> error + buffer"
  toString_utf8 :: "buffer \<Rightarrow> string"
  nowISO :: string

section \<open>The sync script (\<open>scripts/sync-data.ts\<close>)\<close>

text \<open>
  The script that \<open>scripts/build-site.ts\<close> runs as \<open>scripts/sync-data.ts\<close>; among the
  sources it is \<open>src/unnamed/part_003\<close>, and the line numbers below are its lines.
\<close>

subsection \<open>What the script produces\<close>

record commit =
  hash :: string
  message :: string

text \<open>An entry of the \<open>steps\<close> array of \<open>project.json\<close>.\<close>

record step_meta =
  step_id :: string
  step_title :: string
  step_commit :: string
  step_slug :: string
  step_commitMessage :: string
  step_hasOutput :: bool

record project_data =
  title :: string
  description :: string
  repoName :: string
  repoPath :: string
  repoUrl :: string
  startDate :: string
  lastDate :: string
  docNumber :: string
  steps :: "step_meta list"

record project_config =
  cfg_title :: "string option"
  cfg_description :: "string option"
  cfg_docNumber :: "string option"

text \<open>
  The script's effects on the site directory, in the order it performs them.
  \<open>WriteJson\<close> is \<open>fs.writeFileSync(DATA_FILE, JSON.stringify(projectData, null, 2))\<close>.
\<close>

datatype fs_op =
    RmSync string
  | MkdirSync string
  | WriteFileSync string string
  | WriteJson string project_data

definition STEPS_DIR :: "world \<Rightarrow> string" where
  "STEPS_DIR w = path_join (SITE_DIR w) ''src/content/steps''"

definition DATA_FILE :: "world \<Rightarrow> string" where
  "DATA_FILE w = path_join (SITE_DIR w) ''src/data/project.json''"

definition DOCS_DIR :: "world \<Rightarrow> string" where
  "DOCS_DIR w = path_join (SITE_DIR w) ''src/content/docs''"

text \<open>Lines 20-29: the steps directory is emptied, the docs directory created.\<close>

definition ensureDirs :: "world \<Rightarrow> fs_op list" where
  "ensureDirs w =
     (if existsSync w (STEPS_DIR w) then [RmSync (STEPS_DIR w)] else [])
     @ [MkdirSync (STEPS_DIR w)]
     @ (if \<not> existsSync w (DOCS_DIR w) then [MkdirSync (DOCS_DIR w)] else [])"

subsection \<open>README front matter (lines 39-73)\<close>

text \<open>
  \<open>/^\s*---\s*\n([\s\S]*?)\n\s*---\s*\n?([\s\S]*)$/\<close>, as the backtracking matcher runs
  it.  A white-space run that must be followed by \<open>-\<close> is the maximal one.  After the
  opening dashes \<open>\s*\n\<close> tries the last LF of the white-space run first, then earlier
  ones (\<open>frontmatter_open\<close>); the lazy group grows until \<open>\n\s*---\<close> follows
  (\<open>frontmatter_close\<close>); the rest always matches, and the second group starts after
  the white space that follows the closing dashes.  The result is (group 1, group 2).
\<close>

fun frontmatter_close :: "string \<Rightarrow> (string \<times> string) option" where
  "frontmatter_close [] = None"
| "frontmatter_close (c # cs) =
     (if c = CHR 0x0A \<and> take 3 (dropWhile isSpace cs) = ''---''
      then Some ([], dropWhile isSpace (drop 3 (dropWhile isSpace cs)))
      else map_option (\<lambda>(g, b). (c # g, b)) (frontmatter_close cs))"

fun frontmatter_open :: "string \<Rightarrow> nat \<Rightarrow> (string \<times> string) option" where
  "frontmatter_open r 0 = None"
| "frontmatter_open r (Suc j) =
     (if take 1 (drop j r) = [CHR 0x0A]
      then (case frontmatter_close (drop (Suc j) r) of
              Some m \<Rightarrow> Some m
            | None \<Rightarrow> frontmatter_open r j)
      else frontmatter_open r j)"

definition frontmatterMatch :: "string \<Rightarrow> (string \<times> string) option" where
  "frontmatterMatch rawReadme =
     (let r1 = dropWhile isSpace rawReadme in
      if take 3 r1 = ''---''
      then frontmatter_open (drop 3 r1) (length (takeWhile isSpace (drop 3 r1)))
      else None)"

text \<open>
  \<open>/^(\w+):\s*(.+?)\s*$/\<close> on one line of the front matter: the key is the maximal run
  of word characters, a colon follows; \<open>\s*\<close> gives characters back one at a time
  (\<open>field_ws\<close>), and the lazy \<open>(.+?)\<close> is the shortest non-empty run without a line
  terminator after which only white space remains (\<open>field_lazy\<close>).
\<close>

fun field_lazy :: "string \<Rightarrow> string option" where
  "field_lazy [] = None"
| "field_lazy (c # cs) =
     (if isLineTerminator c then None
      else if list_all isSpace cs then Some [c]
      else map_option (\<lambda>v. c # v) (field_lazy cs))"

fun field_ws :: "string \<Rightarrow> nat \<Rightarrow> string option" where
  "field_ws r 0 = field_lazy r"
| "field_ws r (Suc j) =
     (case field_lazy (drop (Suc j) r) of Some v \<Rightarrow> Some v | None \<Rightarrow> field_ws r j)"

definition fieldMatch :: "string \<Rightarrow> (string \<times> string) option" where
  "fieldMatch line =
     (let key = takeWhile isWord line; r = dropWhile isWord line in
      if key \<noteq> [] \<and> take 1 r = '':''
      then map_option (\<lambda>v. (key, v)) (field_ws (drop 1 r) (length (takeWhile isSpace (drop 1 r))))
      else None)"

text \<open>\<open>value.replace(/^["']|["']$/g, '')\<close>: one quote off the front, one off the end.\<close>

definition isQuote :: "char \<Rightarrow> bool" where
  "isQuote c = (c = CHR 0x22 \<or> c = CHR 0x27)"

definition cleanValue :: "string \<Rightarrow> string" where
  "cleanValue v =
     (let v1 = (case v of [] \<Rightarrow> [] | c # cs \<Rightarrow> if isQuote c then cs else v) in
      if v1 \<noteq> [] \<and> isQuote (last v1) then butlast v1 else v1)"

definition setField :: "project_config \<Rightarrow> string \<Rightarrow> project_config" where
  "setField cfg line =
     (case fieldMatch line of
        None \<Rightarrow> cfg
      | Some (key, v) \<Rightarrow>
          (let c1 = (if key = ''title'' then cfg\<lparr>cfg_title := Some (cleanValue v)\<rparr> else cfg);
               c2 = (if key = ''description''
                     then c1\<lparr>cfg_description := Some (cleanValue v)\<rparr> else c1)
           in if key = ''docNumber'' then c2\<lparr>cfg_docNumber := Some (cleanValue v)\<rparr> else c2))"

definition emptyConfig :: project_config where
  "emptyConfig = \<lparr>cfg_title = None, cfg_description = None, cfg_docNumber = None\<rparr>"

definition parseFields :: "string \<Rightarrow> project_config" where
  "parseFields frontmatter = foldl setField emptyConfig (split (CHR 0x0A) frontmatter)"

text \<open>
  \<open>readmeBody.replace(/^#\s+.+\n+/, '')\<close>: only at the start of the text.  \<open>\s+\<close> gives
  characters back one at a time; \<open>.+\<close> must run up to a LF, so it is the maximal run
  without a line terminator; \<open>\n+\<close> takes every LF that follows.
\<close>

fun stripH1_ws :: "string \<Rightarrow> nat \<Rightarrow> string option" where
  "stripH1_ws r 0 = None"
| "stripH1_ws r (Suc j) =
     (let t = drop (Suc j) r;
          rest = dropWhile (\<lambda>c. \<not> isLineTerminator c) t
      in if takeWhile (\<lambda>c. \<not> isLineTerminator c) t \<noteq> [] \<and> take 1 rest = [CHR 0x0A]
         then Some (dropWhile (\<lambda>c. c = CHR 0x0A) rest)
         else stripH1_ws r j)"

definition stripH1 :: "string \<Rightarrow> string" where
  "stripH1 body =
     (case body of
        [] \<Rightarrow> body
      | c # cs \<Rightarrow>
          if c = CHR ''#''
          then (case stripH1_ws cs (length (takeWhile isSpace cs)) of
                  Some rest \<Rightarrow> rest
                | None \<Rightarrow> body)
          else body)"

text \<open>
  Step 1 of the script.  An unreadable README that exists throws (the read is outside any
  \<open>try\<close>), with nothing written to \<open>docs/readme.md\<close>.
\<close>

definition readReadme :: "world \<Rightarrow> fs_op list \<times> (error + project_config)" where
  "readReadme w =
     (let readmePath = path_join (SOURCE_REPO w) ''README.md'' in
      if existsSync w readmePath
      then (case readFileSync w readmePath of
              Inl e \<Rightarrow> ([], Inl e)
            | Inr rawReadme \<Rightarrow>
                (case frontmatterMatch rawReadme of
                   None \<Rightarrow>
                     ([WriteFileSync (path_join (DOCS_DIR w) ''readme.md'') (stripH1 rawReadme)],
                      Inr emptyConfig)
                 | Some (frontmatter, body) \<Rightarrow>
                     ([WriteFileSync (path_join (DOCS_DIR w) ''readme.md'') (stripH1 (trim body))],
                      Inr (parseFields frontmatter))))
      else ([], Inr emptyConfig))"

subsection \<open>Commits (lines 75-81)\<close>

definition gitLogCommand :: string where
  "gitLogCommand = ''git log --oneline --reverse --format='' @ [CHR 0x22] @ ''%h %s'' @ [CHR 0x22]"

text \<open>
  \<open>const [hash, ...msgParts] = line.split(' ')\<close>; \<open>split\<close> never returns the empty
  array, so the first case does not arise.
\<close>

definition parseLine :: "string \<Rightarrow> commit" where
  "parseLine line =
     (case split (CHR '' '') line of
        [] \<Rightarrow> \<lparr>hash = [], message = []\<rparr>
      | h # msgParts \<Rightarrow> \<lparr>hash = h, message = join '' '' msgParts\<rparr>)"

definition parseLog :: "string \<Rightarrow> commit list" where
  "parseLog logOutput = map parseLine (filterBoolean (split (CHR 0x0A) logOutput))"

subsection \<open>One step per commit (lines 84-137)\<close>

text \<open>
  \<open>stepContent.match(/^#\s+(.+)$/m)\<close>, group 1 of the leftmost match.  At a line start
  holding \<open>#\<close>, \<open>\s+\<close> first takes the whole white-space run (line terminators
  included) and then gives characters back one at a time (\<open>h1_backtrack\<close>); \<open>(.+)\<close> is
  the maximal run without a line terminator, where \<open>$\<close> holds, and must not be empty.
\<close>

fun h1_backtrack :: "string \<Rightarrow> nat \<Rightarrow> string option" where
  "h1_backtrack r 0 = None"
| "h1_backtrack r (Suc j) =
     (let g = takeWhile (\<lambda>c. \<not> isLineTerminator c) (drop (Suc j) r) in
      if g \<noteq> [] then Some g else h1_backtrack r j)"

definition h1_at :: "string \<Rightarrow> string option" where
  "h1_at r = h1_backtrack r (length (takeWhile isSpace r))"

fun matchH1_from :: "bool \<Rightarrow> string \<Rightarrow> string option" where
  "matchH1_from bol [] = None"
| "matchH1_from bol (c # cs) =
     (if bol \<and> c = CHR ''#''
      then (case h1_at cs of Some g \<Rightarrow> Some g | None \<Rightarrow> matchH1_from False cs)
      else matchH1_from (isLineTerminator c) cs)"

definition matchH1 :: "string \<Rightarrow> string option" where
  "matchH1 stepContent = matchH1_from True stepContent"

definition gitShowCommand :: "string \<Rightarrow> string \<Rightarrow> string" where
  "gitShowCommand h filePath = ''git show '' @ h @ '':'' @ filePath"

definition noStepText :: "string \<Rightarrow> string" where
  "noStepText msg = ''# '' @ msg @ ''\<newline>\<newline>*No STEP.md found for this commit.*''"

text \<open>Lines 89-104: (stepContent, title).\<close>

definition stepNarrative :: "world \<Rightarrow> commit \<Rightarrow> string \<times> string" where
  "stepNarrative w c =
     (case execSync w (gitShowCommand (hash c) ''STEP.md'') of
        Inr stepContent \<Rightarrow>
          (stepContent, case matchH1 stepContent of Some t \<Rightarrow> t | None \<Rightarrow> message c)
      | Inl e \<Rightarrow> (noStepText (message c), message c))"

text \<open>Lines 106-111: outputContent.\<close>

definition stepOutput :: "world \<Rightarrow> commit \<Rightarrow> string" where
  "stepOutput w c =
     (case execSync w (gitShowCommand (hash c) ''OUTPUT.md'') of
        Inr outputContent \<Rightarrow> outputContent
      | Inl e \<Rightarrow> [])"

text \<open>\<open>title.replace(/"/g, '\\"')\<close>.\<close>

definition escapeQuotes :: "string \<Rightarrow> string" where
  "escapeQuotes s = concat (map (\<lambda>c. if c = CHR 0x22 then [CHR 0x5C, CHR 0x22] else [c]) s)"

definition stepFileContent :: "string \<Rightarrow> string \<Rightarrow> string \<Rightarrow> string \<Rightarrow> string" where
  "stepFileContent t h i stepContent =
     ''---\<newline>title: '' @ [CHR 0x22] @ escapeQuotes t @ [CHR 0x22]
     @ ''\<newline>commit: '' @ [CHR 0x22] @ h @ [CHR 0x22]
     @ ''\<newline>slug: '' @ [CHR 0x22] @ i @ [CHR 0x22]
     @ ''\<newline>---\<newline>\<newline>'' @ stepContent @ ''\<newline>''"

definition destStepFile :: "world \<Rightarrow> nat \<Rightarrow> string" where
  "destStepFile w index = path_join (STEPS_DIR w) (toString index @ ''.md'')"

definition destOutputFile :: "world \<Rightarrow> nat \<Rightarrow> string" where
  "destOutputFile w index = path_join (STEPS_DIR w) (toString index @ ''.output.txt'')"

text \<open>The body of \<open>commits.map((commit, index) => ...)\<close>: the files written and the entry returned.\<close>

definition mkStep :: "world \<Rightarrow> commit \<Rightarrow> nat \<Rightarrow> fs_op list \<times> step_meta" where
  "mkStep w c index =
     (let i = toString index;
          (stepContent, t) = stepNarrative w c;
          outputContent = stepOutput w c
      in ([WriteFileSync (destStepFile w index) (stepFileContent t (hash c) i stepContent)]
          @ (if outputContent \<noteq> [] then [WriteFileSync (destOutputFile w index) outputContent]
             else []),
          \<lparr>step_id = i, step_title = t, step_commit = hash c, step_slug = i,
           step_commitMessage = message c, step_hasOutput = (outputContent \<noteq> [])\<rparr>))"

definition mapSteps :: "world \<Rightarrow> commit list \<Rightarrow> (fs_op list \<times> step_meta) list" where
  "mapSteps w commits = map (\<lambda>(index, c). mkStep w c index) (enumerate 0 commits)"

subsection \<open>Repository name, dates, defaults (lines 139-172)\<close>

text \<open>\<open>path.basename\<close> of a resolved path: what follows the last slash.\<close>

definition basename :: "string \<Rightarrow> string" where
  "basename p = last (split (CHR ''/'') p)"

text \<open>
  \<open>repoUrl.match(/\/([^\/]+?)(\.git)?$/)\<close>, group 1: the match starts at the last slash
  when something follows it; the lazy group stops before a final \<open>.git\<close> unless that
  would leave it empty.
\<close>

definition urlMatch :: "string \<Rightarrow> string option" where
  "urlMatch url =
     (let seg = last (split (CHR ''/'') url) in
      if CHR ''/'' \<notin> set url \<or> seg = [] then None
      else if 4 < length seg \<and> drop (length seg - 4) seg = ''.git''
           then Some (take (length seg - 4) seg)
           else Some seg)"

text \<open>Step 4: (repoUrl, repoName).\<close>

definition repoInfo :: "world \<Rightarrow> string \<times> string" where
  "repoInfo w =
     (case execSync w ''git remote get-url origin'' of
        Inl e \<Rightarrow> ([], basename (SOURCE_REPO w))
      | Inr out \<Rightarrow>
          (trim out, case urlMatch (trim out) of
                       Some n \<Rightarrow> n
                     | None \<Rightarrow> basename (SOURCE_REPO w)))"

definition firstDateCommand :: string where
  "firstDateCommand =
     ''git log --reverse --format='' @ [CHR 0x22] @ ''%ai'' @ [CHR 0x22] @ '' | head -1''"

definition lastDateCommand :: string where
  "lastDateCommand = ''git log -1 --format='' @ [CHR 0x22] @ ''%ai'' @ [CHR 0x22]"

text \<open>
  Step 5: (startDate, lastDate).  Both start as today's date; the two reads share one
  \<open>try\<close>, so a failure of the second keeps the first.  \<open>split(c)[0]\<close> is the text before
  the first \<open>c\<close>.
\<close>

definition firstField :: "char \<Rightarrow> string \<Rightarrow> string" where
  "firstField sep s = takeWhile (\<lambda>c. c \<noteq> sep) s"

definition commitDates :: "world \<Rightarrow> string \<times> string" where
  "commitDates w =
     (let today = firstField (CHR ''T'') (nowISO w) in
      case execSync w firstDateCommand of
        Inl e \<Rightarrow> (today, today)
      | Inr first \<Rightarrow>
          (case execSync w lastDateCommand of
             Inl e \<Rightarrow> (firstField (CHR '' '') (trim first), today)
           | Inr lst \<Rightarrow> (firstField (CHR '' '') (trim first), firstField (CHR '' '') (trim lst))))"

text \<open>Step 6: \<open>word.charAt(0).toUpperCase()\<close> of every dash-separated part, then the year.\<close>

definition defaultDocNumber :: "string \<Rightarrow> string \<Rightarrow> string" where
  "defaultDocNumber name start =
     join [] (map (\<lambda>word. toUpperCase (take 1 word)) (split (CHR ''-'') name))
     @ ''-'' @ firstField (CHR ''-'') start"

text \<open>
  Step 7: \<open>repoName.replace(/-/g, ' ').replace(/\b\w/g, c => c.toUpperCase())\<close>.  \<open>\b\w\<close>
  is a word character that starts the text or follows a character that is not one.
\<close>

definition replaceDashes :: "string \<Rightarrow> string" where
  "replaceDashes s = map (\<lambda>c. if c = CHR ''-'' then CHR '' '' else c) s"

fun upcaseWordStarts :: "bool \<Rightarrow> string \<Rightarrow> string" where
  "upcaseWordStarts prevWord [] = []"
| "upcaseWordStarts prevWord (c # cs) =
     (if isWord c \<and> \<not> prevWord then toUpperCase_char c else c) # upcaseWordStarts (isWord c) cs"

definition defaultTitle :: "string \<Rightarrow> string" where
  "defaultTitle name = upcaseWordStarts False (replaceDashes name)"

subsection \<open>The whole script\<close>

text \<open>
  The effects performed, and either the exception that ended the run or the project data
  written to \<open>project.json\<close>.  The git log (line 77) is read outside any \<open>try\<close>.
\<close>

definition sync_data :: "world \<Rightarrow> fs_op list \<times> (error + project_data)" where
  "sync_data w =
     (case readReadme w of
        (ops1, Inl e) \<Rightarrow> (ensureDirs w @ ops1, Inl e)
      | (ops1, Inr projectConfig) \<Rightarrow>
          (case execSync w gitLogCommand of
             Inl e \<Rightarrow> (ensureDirs w @ ops1, Inl e)
           | Inr logOutput \<Rightarrow>
               (let rs = mapSteps w (parseLog logOutput);
                    (url, name) = repoInfo w;
                    (start, lst) = commitDates w;
                    projectData =
                      \<lparr>title = or_else (cfg_title projectConfig) (defaultTitle name),
                       description = or_else (cfg_description projectConfig) [],
                       repoName = name,
                       repoPath = SOURCE_REPO w,
                       repoUrl = url,
                       startDate = start,
                       lastDate = lst,
                       docNumber = or_else (cfg_docNumber projectConfig) (defaultDocNumber name start),
                       steps = map snd rs\<rparr>
                in (ensureDirs w @ ops1 @ concat (map fst rs) @ [WriteJson (DATA_FILE w) projectData],
                    Inr projectData))))"

section \<open>The git accessors (\<open>src/utils/git.ts\<close>)\<close>

text \<open>
  Among the sources: \<open>src/src/utils/project.ts\<close>, lines 31-81.  The repository path is
  the \<open>repoPath\<close> of \<open>project.json\<close>, the working directory of every command.
\<close>

record FileNode =
  path :: string
  content :: "string option"
  isBinary :: "bool option"

text \<open>
  \<open>getFileContent\<close>: the blob is read as a \<open>Buffer\<close>; \<open>null\<close> is \<open>None\<close>.  The result
  type keeps the exception the caller could see.
\<close>

definition getFileContent :: "world \<Rightarrow> string \<Rightarrow> string \<Rightarrow> error + string option" where
  "getFileContent w commitRef filePath =
     try_catch
       (bind (execSyncBuffer w (gitShowCommand commitRef filePath))
          (\<lambda>contentBuffer.
             if 0 \<in> set contentBuffer then Inr None
             else Inr (Some (toString_utf8 w contentBuffer))))
       (\<lambda>e. Inr None)"

definition changedFilesCommand :: "string \<Rightarrow> string" where
  "changedFilesCommand commitRef = ''git show --format= --name-only '' @ commitRef"

definition getChangedFiles :: "world \<Rightarrow> string \<Rightarrow> error + string list" where
  "getChangedFiles w commitRef =
     try_catch
       (bind (execSync w (changedFilesCommand commitRef))
          (\<lambda>output. Inr (filterBoolean (split (CHR 0x0A) output))))
       (\<lambda>e. Inr [])"

definition lsTreeCommand :: "string \<Rightarrow> string" where
  "lsTreeCommand commitRef = ''git ls-tree -r --name-only '' @ commitRef"

text \<open>\<open>files.map(f)\<close> for a callback that may throw: the first exception ends the map.\<close>

fun mapM :: "('a \<Rightarrow> error + 'b) \<Rightarrow> 'a list \<Rightarrow> error + 'b list" where
  "mapM f [] = Inr []"
| "mapM f (x # xs) = bind (f x) (\<lambda>y. bind (mapM f xs) (\<lambda>ys. Inr (y # ys)))"

definition binaryNode :: "string \<Rightarrow> FileNode" where
  "binaryNode filePath = \<lparr>path = filePath, content = None, isBinary = Some True\<rparr>"

definition textNode :: "string \<Rightarrow> string \<Rightarrow> FileNode" where
  "textNode filePath text = \<lparr>path = filePath, content = Some text, isBinary = None\<rparr>"

text \<open>The callback of \<open>files.map\<close> in \<open>getCommitFiles\<close>, with its own \<open>try\<close>.\<close>

definition fileNodeOf :: "world \<Rightarrow> string \<Rightarrow> string \<Rightarrow> error + FileNode" where
  "fileNodeOf w commitRef filePath =
     try_catch
       (bind (getFileContent w commitRef filePath)
          (\<lambda>c. case c of
                 None \<Rightarrow> Inr (binaryNode filePath)
               | Some text \<Rightarrow> Inr (textNode filePath text)))
       (\<lambda>e. Inr (binaryNode filePath))"

definition getCommitFiles :: "world \<Rightarrow> string \<Rightarrow> error + FileNode list" where
  "getCommitFiles w commitRef =
     try_catch
       (bind (execSync w (lsTreeCommand commitRef))
          (\<lambda>output. mapM (fileNodeOf w commitRef) (filterBoolean (split (CHR 0x0A) output))))
       (\<lambda>e. Inr [])"

section \<open>The diff view (\<open>src/components/Workspace.tsx\<close>)\<close>

text \<open>
  Among the sources: \<open>src/src/utils/project.ts\<close>, lines 137-193, the effect that fills
  the code and diff panes.  \<open>DiffOf name old new\<close> stands for the
  one call of the diff library, \<open>Diff.createTwoFilesPatch(name, name, old, new, ...)\<close>,
  and \<open>Highlighted\<close> for the call of the syntax highlighter; neither library is modelled.
\<close>

datatype mode = Code | Diff | Terminal

datatype pane =
    Unchanged
  | Highlighted string
  | BinaryOrEmpty
  | FileNotFound
  | BinaryDiffNotSupported
  | DiffOf string string string

definition isBinaryNode :: "FileNode option \<Rightarrow> bool" where
  "isBinaryNode f = (case f of None \<Rightarrow> False | Some n \<Rightarrow> isBinary n = Some True)"

definition contentOrEmpty :: "FileNode option \<Rightarrow> string" where
  "contentOrEmpty f =
     (case f of None \<Rightarrow> [] | Some n \<Rightarrow> (case content n of None \<Rightarrow> [] | Some t \<Rightarrow> t))"

definition renderPane ::
  "mode \<Rightarrow> string option \<Rightarrow> bool \<Rightarrow> FileNode list \<Rightarrow> FileNode list \<Rightarrow> pane" where
  "renderPane m selectedFile highlighter files prevFiles =
     (if m = Terminal then Unchanged
      else case selectedFile of
        None \<Rightarrow> Unchanged
      | Some sel \<Rightarrow>
          if sel = [] \<or> \<not> highlighter then Unchanged
          else
            (let file = find (\<lambda>f. path f = sel) files;
                 prevFile = find (\<lambda>f. path f = sel) prevFiles
             in if m = Code
                then (if file \<noteq> None \<and> \<not> isBinaryNode file \<and> contentOrEmpty file \<noteq> []
                      then Highlighted (contentOrEmpty file)
                      else BinaryOrEmpty)
                else if file = None \<and> prevFile = None then FileNotFound
                else if isBinaryNode file \<or> isBinaryNode prevFile then BinaryDiffNotSupported
                else DiffOf sel (contentOrEmpty prevFile) (contentOrEmpty file)))"

section \<open>The combined narrative file (\<open>src/utils/steps.ts\<close>, first version)\<close>

text \<open>
  Among the sources: \<open>src/src/utils/steps.ts\<close>, lines 1-82: \<open>getSteps\<close> pairs the
  commits of the log with the H1 sections of one \<open>STEPS.md\<close>, by position.
\<close>

record Step =
  st_id :: string
  st_slug :: string
  st_title :: string
  st_commit :: string
  st_commitMessage :: string
  st_content :: string

text \<open>
  \<open>path.resolve('../weekend-coding-agent')\<close> names the directory beside the working
  directory of the build; the relative name stands for it here, as the key under which
  \<open>readFileSync\<close> of the world is asked for \<open>STEPS.md\<close>.
\<close>

definition REPO_PATH :: string where
  "REPO_PATH = ''../weekend-coding-agent''"

definition STEPS_PATH :: string where
  "STEPS_PATH = path_join REPO_PATH ''STEPS.md''"

definition gitLogFullCommand :: string where
  "gitLogFullCommand = ''git log --oneline --reverse --no-abbrev-commit''"

text \<open>
  \<open>fileContent.split(/^# /m)\<close>: the text between the matches of \<open>#\<close> and a space at a
  line start; the flag says whether the position is a line start.
\<close>

fun splitH1 :: "bool \<Rightarrow> string \<Rightarrow> string list" where
  "splitH1 bol [] = [[]]"
| "splitH1 bol (c # cs) =
     (if bol \<and> c = CHR ''#'' \<and> take 1 cs = '' ''
      then [] # splitH1 False (drop 1 cs)
      else cons_hd c (splitH1 (isLineTerminator c) cs))"

text \<open>\<open>part.indexOf('\n')\<close>, \<open>-1\<close> when there is none; \<open>substring\<close> clamps its arguments.\<close>

definition indexOf :: "char \<Rightarrow> string \<Rightarrow> int" where
  "indexOf c s = (if c \<in> set s then int (length (takeWhile (\<lambda>x. x \<noteq> c) s)) else - 1)"

definition clamp :: "string \<Rightarrow> int \<Rightarrow> nat" where
  "clamp s i = (if i < 0 then 0 else min (nat i) (length s))"

definition substring :: "string \<Rightarrow> int \<Rightarrow> int \<Rightarrow> string" where
  "substring s a b =
     (let lo = min (clamp s a) (clamp s b); hi = max (clamp s a) (clamp s b)
      in take (hi - lo) (drop lo s))"

definition substringFrom :: "string \<Rightarrow> int \<Rightarrow> string" where
  "substringFrom s a = drop (clamp s a) s"

definition parseSection :: "string \<Rightarrow> string \<times> string" where
  "parseSection part =
     (let newlineIndex = indexOf (CHR 0x0A) part
      in (trim (substring part 0 newlineIndex), trim (substringFrom part newlineIndex)))"

definition getSteps :: "world \<Rightarrow> Step list" where
  "getSteps w =
     (case execSync w gitLogFullCommand of
        Inl e \<Rightarrow> []
      | Inr output \<Rightarrow>
          (let commits = map parseLine (split (CHR 0x0A) (trim output)) in
           case readFileSync w STEPS_PATH of
             Inl e \<Rightarrow> []
           | Inr fileContent \<Rightarrow>
               (let sections = map parseSection (drop 1 (splitH1 True fileContent));
                    count = min (length commits) (length sections)
                in map (\<lambda>i. \<lparr>st_id = toString i, st_slug = toString i,
                               st_title = fst (sections ! i),
                               st_commit = hash (commits ! i),
                               st_commitMessage = message (commits ! i),
                               st_content = snd (sections ! i)\<rparr>)
                     [0..<count])))"

section \<open>What git prints\<close>

text \<open>
  The repository as the two log commands see it: the commits reachable from the branch
  tip, oldest first, each with its 40-digit object name and its subject line, and the
  number of digits git abbreviates the name of each commit to (a configured minimum,
  more where the abbreviated name would not be unique, so the abbreviated names of one
  log may differ in length).  \<open>%h\<close> prints the abbreviated name and \<open>%s\<close> the subject;
  \<open>--oneline --no-abbrev-commit\<close> prints the full name, a space and the subject; every
  commit ends its line with LF; in a repository without commits \<open>git log\<close> exits with
  status 128.
\<close>

record git_commit =
  full_hash :: string
  subject :: string

record repository =
  history :: "git_commit list"
  abbrev :: "git_commit \<Rightarrow> nat"

definition short_hash :: "repository \<Rightarrow> git_commit \<Rightarrow> string" where
  "short_hash r c = take (abbrev r c) (full_hash c)"

definition git_log_short :: "repository \<Rightarrow> error + string" where
  "git_log_short r =
     (if history r = [] then Inl (ExecError 128)
      else Inr (concat (map (\<lambda>c. short_hash r c @ '' '' @ subject c @ ''\<newline>'') (history r))))"

definition git_log_full :: "repository \<Rightarrow> error + string" where
  "git_log_full r =
     (if history r = [] then Inl (ExecError 128)
      else Inr (concat (map (\<lambda>c. full_hash c @ '' '' @ subject c @ ''\<newline>'') (history r))))"

definition isHex :: "char \<Rightarrow> bool" where
  "isHex c = (isDigit c \<or> (97 \<le> (of_char c :: nat) \<and> (of_char c :: nat) \<le> 102))"

text \<open>
  A well-formed repository: object names are 40 lower-case hexadecimal digits, a subject
  holds no LF, and every name is abbreviated to between 4 and 40 digits.
\<close>

definition wf_commit :: "git_commit \<Rightarrow> bool" where
  "wf_commit c =
     (length (full_hash c) = 40 \<and> list_all isHex (full_hash c)
      \<and> CHR 0x0A \<notin> set (subject c))"

definition wf_repository :: "repository \<Rightarrow> bool" where
  "wf_repository r =
     (list_all wf_commit (history r)
      \<and> list_all (\<lambda>c. 4 \<le> abbrev r c \<and> abbrev r c \<le> 40) (history r))"

section \<open>The specification's words\<close>

subsection \<open>Sections of the narrative file, counted by lines\<close>

text \<open>
  The specification's "number of H1 sections" of the combined \<open>STEPS.md\<close>, written from
  its words and not from the code: the lines of the file (a line ends at a line
  terminator) that begin with \<open>#\<close> and a space.  A file that cannot be read has none.
\<close>

fun linesOf :: "string \<Rightarrow> string list" where
  "linesOf [] = [[]]"
| "linesOf (c # cs) = (if isLineTerminator c then [] # linesOf cs else cons_hd c (linesOf cs))"

definition isH1Start :: "string \<Rightarrow> bool" where
  "isH1Start l = (take 2 l = ''# '')"

definition h1Count :: "string \<Rightarrow> nat" where
  "h1Count s = length (filter isH1Start (linesOf s))"

definition sectionCount :: "world \<Rightarrow> nat" where
  "sectionCount w = (case readFileSync w STEPS_PATH of Inl e \<Rightarrow> 0 | Inr fileContent \<Rightarrow> h1Count fileContent)"

subsection \<open>Title and document number\<close>

text \<open>
  The default title and document number as the specification words them, to be compared
  with \<open>defaultTitle\<close> and \<open>defaultDocNumber\<close>: the words of the repository name are
  separated by \<open>-\<close> or \<open>_\<close>, the title joins them with spaces, each with its first
  letter in upper case, and the document number is the upper-cased first letters of the
  title's words, a dash, and the year that starts the date.
\<close>

definition capitalize :: "string \<Rightarrow> string" where
  "capitalize word = (case word of [] \<Rightarrow> [] | c # cs \<Rightarrow> toUpperCase_char c # cs)"

definition initials :: "string list \<Rightarrow> string" where
  "initials ws = concat (map (\<lambda>word. toUpperCase (take 1 word)) ws)"

definition spec_title :: "string \<Rightarrow> string" where
  "spec_title name =
     join '' '' (map capitalize
       (split (CHR '' '') (map (\<lambda>c. if c = CHR ''-'' \<or> c = CHR ''_'' then CHR '' '' else c) name)))"

definition spec_docNumber :: "string \<Rightarrow> string \<Rightarrow> string" where
  "spec_docNumber name start =
     initials (split (CHR '' '') (spec_title name)) @ ''-'' @ takeWhile (\<lambda>c. c \<noteq> CHR ''-'') start"

subsection \<open>Heading lines\<close>

text \<open>
  A line in the style of an H1 heading: \<open>#\<close>, white space, and text after it.
\<close>

definition isH1Line :: "string \<Rightarrow> bool" where
  "isH1Line l = (case l of c # d # rest \<Rightarrow> c = CHR ''#'' \<and> isSpace d \<and> rest \<noteq> [] | _ \<Rightarrow> False)"

text \<open>
  A heading without text: a line that holds \<open>#\<close> and nothing but white space after it.
  The text of a heading line: what follows \<open>#\<close> and the white space.
\<close>

definition isEmptyHeading :: "string \<Rightarrow> bool" where
  "isEmptyHeading l = (take 1 l = ''#'' \<and> list_all isSpace (tl l))"

definition headingText :: "string \<Rightarrow> string" where
  "headingText l = dropWhile isSpace (tl l)"

section \<open>Example worlds\<close>

text \<open>
  Concrete inputs on which the theorems below are exercised: a child process answers the
  command lines of a table and exits with status 128 on every other one; the source
  repository has no README in its working tree.
\<close>

definition exec_table :: "(string \<times> string) list \<Rightarrow> string \<Rightarrow> error + string" where
  "exec_table tbl cmd = (case map_of tbl cmd of Some out \<Rightarrow> Inr out | None \<Rightarrow> Inl (ExecError 128))"

definition example_world :: "(string \<times> string) list \<Rightarrow> world" where
  "example_world tbl =
     \<lparr>SITE_DIR = ''/site'', SOURCE_REPO = ''/work/my-repo'',
      existsSync = (\<lambda>p. False), readFileSync = (\<lambda>p. Inl FsError),
      execSync = exec_table tbl, execSyncBuffer = (\<lambda>c. Inl (ExecError 128)),
      toString_utf8 = map (\<lambda>b. char_of (unat b)),
      nowISO = ''2026-01-01T00:00:00.000Z''\<rparr>"

text \<open>Two commits; the first has an \<open>OUTPUT.md\<close> with text, the second an empty one.\<close>

definition world_two_commits :: world where
  "world_two_commits = example_world
     [(gitLogCommand, ''abc1234 first\<newline>def5678 second\<newline>''),
      (gitShowCommand ''abc1234'' ''OUTPUT.md'', ''ok\<newline>''),
      (gitShowCommand ''def5678'' ''OUTPUT.md'', [])]"

text \<open>
  A commit with a text file, a PNG image (a null byte among its bytes) and a listed path
  whose blob cannot be read.
\<close>

definition buffer_table :: "(string \<times> buffer) list \<Rightarrow> string \<Rightarrow> error + buffer" where
  "buffer_table tbl cmd = (case map_of tbl cmd of Some b \<Rightarrow> Inr b | None \<Rightarrow> Inl (ExecError 128))"

definition world_blobs :: world where
  "world_blobs = (example_world
       [(lsTreeCommand ''abc1234'', ''a.txt\<newline>gone.txt\<newline>logo.png\<newline>''),
        (changedFilesCommand ''abc1234'', ''a.txt\<newline>logo.png\<newline>'')])
     \<lparr>execSyncBuffer := buffer_table
        [(gitShowCommand ''abc1234'' ''a.txt'', [104, 105]),
         (gitShowCommand ''abc1234'' ''logo.png'', [137, 80, 0, 71])]\<rparr>"

text \<open>
  A repository of two commits, names abbreviated to seven digits, and a world in which git
  prints its two logs; \<open>STEPS.md\<close> holds one section.
\<close>

definition repo_two :: repository where
  "repo_two =
     \<lparr>history = [\<lparr>full_hash = ''abc1234def0123456789abcdef0123456789abcd'', subject = ''first''\<rparr>,
                 \<lparr>full_hash = ''def56780123456789abcdef0123456789abcdef0'', subject = ''second''\<rparr>],
      abbrev = (\<lambda>c. 7)\<rparr>"

definition world_repo_two :: world where
  "world_repo_two = (example_world
       [(gitLogCommand, ''abc1234 first\<newline>def5678 second\<newline>''),
        (gitLogFullCommand,
         ''abc1234def0123456789abcdef0123456789abcd first\<newline>def56780123456789abcdef0123456789abcdef0 second\<newline>'')])
     \<lparr>readFileSync := (\<lambda>p. if p = STEPS_PATH then Inr ''# Setup\<newline>We start.\<newline>'' else Inl FsError)\<rparr>"

text \<open>
  A repository of two commits whose names git abbreviates to seven and to eight digits,
  and a world in which git prints its two logs; \<open>STEPS.md\<close> holds three sections.
\<close>

definition repo_mixed :: repository where
  "repo_mixed =
     \<lparr>history = [\<lparr>full_hash = ''abc1234def0123456789abcdef0123456789abcd'', subject = ''first''\<rparr>,
                 \<lparr>full_hash = ''def567890123456789abcdef0123456789abcdef'', subject = ''second''\<rparr>],
      abbrev = (\<lambda>c. if full_hash c = ''def567890123456789abcdef0123456789abcdef'' then 8 else 7)\<rparr>"

definition world_mixed :: world where
  "world_mixed = (example_world
       [(gitLogCommand, ''abc1234 first\<newline>def56789 second\<newline>''),
        (gitLogFullCommand,
         ''abc1234def0123456789abcdef0123456789abcd first\<newline>def567890123456789abcdef0123456789abcdef second\<newline>'')])
     \<lparr>readFileSync := (\<lambda>p. if p = STEPS_PATH
                            then Inr ''# Setup\<newline>We start.\<newline># Build\<newline>We build.\<newline># Ship\<newline>Done.\<newline>''
                            else Inl FsError)\<rparr>"

text \<open>
  A repository without commits, with a README in its working tree; the log fails as git
  does there.
\<close>

definition repo_empty :: repository where
  "repo_empty = \<lparr>history = [], abbrev = (\<lambda>c. 7)\<rparr>"

definition world_no_commits :: world where
  "world_no_commits = (example_world [])
     \<lparr>existsSync := (\<lambda>p. p = ''/work/my-repo/README.md''),
      readFileSync := (\<lambda>p. if p = ''/work/my-repo/README.md''
                            then Inr ''# My Repo\<newline>Hello\<newline>'' else Inl FsError)\<rparr>"

text \<open>
  One commit with dates, in a working directory named \<open>my_repo\<close> and in one named
  \<open>my-repo\<close>; no remote is configured.
\<close>

definition world_underscore :: world where
  "world_underscore = (example_world
       [(gitLogCommand, ''abc1234 first\<newline>''),
        (firstDateCommand, ''2025-11-30 10:00:00 +0000\<newline>''),
        (lastDateCommand, ''2025-12-02 18:30:00 +0000\<newline>'')])
     \<lparr>SOURCE_REPO := ''/work/my_repo''\<rparr>"

definition world_dashed :: world where
  "world_dashed = example_world
       [(gitLogCommand, ''abc1234 first\<newline>''),
        (firstDateCommand, ''2025-11-30 10:00:00 +0000\<newline>''),
        (lastDateCommand, ''2025-12-02 18:30:00 +0000\<newline>'')]"

text \<open>
  One commit whose \<open>STEP.md\<close> is a bare \<open>#\<close> line followed by a line of text.
\<close>

definition world_bare_hash :: world where
  "world_bare_hash = example_world
       [(gitLogCommand, ''abc1234 first\<newline>''),
        (gitShowCommand ''abc1234'' ''STEP.md'', ''#\<newline>foo\<newline>'')]"

section \<open>Strings: splitting, joining, decimal digits\<close>

lemma split_not_Nil: "split sep s \<noteq> []"
  by (induction s) (auto simp: neq_Nil_conv elim: cons_hd.elims)

lemma cons_hd_Cons: "ps \<noteq> [] \<Longrightarrow> cons_hd c ps = (c # hd ps) # tl ps"
  by (cases ps) auto

lemma split_no_sep: "sep \<notin> set a \<Longrightarrow> split sep a = [a]"
  by (induction a) auto

lemma split_append_sep: "sep \<notin> set a \<Longrightarrow> split sep (a @ sep # b) = a # split sep b"
  by (induction a) auto

lemma join_split: "join [sep] (split sep s) = s"
proof (induction s)
  case Nil
  then show ?case by simp
next
  case (Cons c cs)
  obtain p ps where sp: "split sep cs = p # ps"
    using split_not_Nil [of sep cs] by (cases "split sep cs") auto
  show ?case
  proof (cases "c = sep")
    case True
    with Cons sp show ?thesis by simp
  next
    case False
    with Cons sp show ?thesis by (cases ps) auto
  qed
qed

lemma parseLine_hash_message:
  "CHR '' '' \<notin> set h \<Longrightarrow> parseLine (h @ CHR '' '' # s) = \<lparr>hash = h, message = s\<rparr>"
  by (simp add: parseLine_def split_append_sep join_split)

lemma parseLine_hash_only:
  "CHR '' '' \<notin> set h \<Longrightarrow> parseLine h = \<lparr>hash = h, message = []\<rparr>"
  by (simp add: parseLine_def split_no_sep)

lemma split_lines:
  "\<forall>l \<in> set ls. CHR 0x0A \<notin> set l \<Longrightarrow>
   split (CHR 0x0A) (concat (map (\<lambda>l. l @ ''\<newline>'') ls) @ t) = ls @ split (CHR 0x0A) t"
  by (induction ls) (auto simp: split_append_sep)

lemma digit_lt_10_cases:
  "d < 10 \<Longrightarrow> d = 0 \<or> d = 1 \<or> d = 2 \<or> d = 3 \<or> d = 4 \<or> d = 5 \<or> d = 6 \<or> d = 7 \<or> d = 8 \<or> d = (9::nat)"
  by arith

lemma digit_inj:
  assumes "a < 10" and "b < 10" and "digit a = digit b"
  shows "a = b"
proof -
  note A = digit_lt_10_cases [OF assms(1)] and B = digit_lt_10_cases [OF assms(2)]
  from A B assms(3) show ?thesis
    by (elim disjE) (simp_all add: digit_def)
qed

lemma toString_not_Nil: "toString n \<noteq> []"
  by (subst toString.simps) simp

lemma toString_inj: "toString n = toString m \<Longrightarrow> n = m"
proof (induction n arbitrary: m rule: toString.induct)
  case (1 n)
  show ?case
  proof (cases "n < 10")
    case True
    show ?thesis
    proof (cases "m < 10")
      case m: True
      from "1.prems" True m have "digit n = digit m"
        by (simp add: toString.simps [of n] toString.simps [of m])
      with True m show ?thesis by (rule digit_inj)
    next
      case m: False
      from "1.prems" True m have "toString (m div 10) = []"
        by (simp add: toString.simps [of n] toString.simps [of m])
      then show ?thesis by (simp add: toString_not_Nil)
    qed
  next
    case False
    show ?thesis
    proof (cases "m < 10")
      case m: True
      from "1.prems" False m have "toString (n div 10) = []"
        by (simp add: toString.simps [of n] toString.simps [of m])
      then show ?thesis by (simp add: toString_not_Nil)
    next
      case m: False
      from "1.prems" False m
      have eq: "toString (n div 10) = toString (m div 10)" "digit (n mod 10) = digit (m mod 10)"
        by (simp_all add: toString.simps [of n] toString.simps [of m])
      from "1.IH" [OF False eq(1)] have "n div 10 = m div 10" .
      moreover from eq(2) have "n mod 10 = m mod 10" by (intro digit_inj) simp_all
      ultimately show ?thesis by (metis div_mult_mod_eq)
    qed
  qed
qed

section \<open>The structure of a run of the sync script\<close>

text \<open>
  The README of the specification's round-trip example: the title is \<open>Foo\<close> and the
  body that is stored is \<open>Body text\<close>; front matter without its closing dashes is no
  front matter.
\<close>

lemma frontmatter_example:
  "frontmatterMatch (''---\<newline>title: '' @ [CHR 0x22] @ ''Foo'' @ [CHR 0x22] @ ''\<newline>---\<newline># Foo\<newline>Body text'')
     = Some (''title: '' @ [CHR 0x22] @ ''Foo'' @ [CHR 0x22], ''# Foo\<newline>Body text'')"
  "cfg_title (parseFields (''title: '' @ [CHR 0x22] @ ''Foo'' @ [CHR 0x22])) = Some ''Foo''"
  "stripH1 (trim ''# Foo\<newline>Body text'') = ''Body text''"
  by code_simp+

lemma frontmatter_unterminated:
  "frontmatterMatch ''---\<newline>title: Foo\<newline>Body text'' = None"
  by code_simp

lemma length_mapSteps: "length (mapSteps w cs) = length cs"
  by (simp add: mapSteps_def)

lemma nth_mapSteps: "i < length cs \<Longrightarrow> mapSteps w cs ! i = mkStep w (cs ! i) i"
  by (simp add: mapSteps_def nth_enumerate_eq)

lemma sync_data_Inr:
  assumes "sync_data w = (ops, Inr pd)" and "execSync w gitLogCommand = Inr logOutput"
  shows "steps pd = map snd (mapSteps w (parseLog logOutput))"
    and "ops = ensureDirs w @ fst (readReadme w) @ concat (map fst (mapSteps w (parseLog logOutput)))
               @ [WriteJson (DATA_FILE w) pd]"
  using assms by (auto simp: sync_data_def Let_def split: prod.splits sum.splits)

lemma sync_data_total:
  assumes "snd (readReadme w) = Inr cfg" and "execSync w gitLogCommand = Inr logOutput"
  shows "\<exists>ops pd. sync_data w = (ops, Inr pd)"
  using assms by (auto simp: sync_data_def Let_def split: prod.splits sum.splits)

lemma step_hasOutput_mkStep:
  "step_hasOutput (snd (mkStep w c i)) = (stepOutput w c \<noteq> [])"
  by (simp add: mkStep_def Let_def split: prod.splits)

lemma stepOutput_nonempty_iff:
  "(stepOutput w c \<noteq> []) = (\<exists>out. execSync w (gitShowCommand (hash c) ''OUTPUT.md'') = Inr out \<and> out \<noteq> [])"
  by (auto simp: stepOutput_def split: sum.splits)

lemma WriteFileSync_ensureDirs: "WriteFileSync p t \<notin> set (ensureDirs w)"
  by (simp add: ensureDirs_def)

lemma WriteFileSync_readReadme:
  "WriteFileSync p t \<in> set (fst (readReadme w)) \<Longrightarrow> p = path_join (DOCS_DIR w) ''readme.md''"
  by (auto simp: readReadme_def Let_def split: if_splits sum.splits option.splits prod.splits)

lemma WriteFileSync_mkStep:
  "WriteFileSync p t \<in> set (fst (mkStep w c j)) \<longleftrightarrow>
     (p = destStepFile w j \<and> t = stepFileContent (snd (stepNarrative w c)) (hash c) (toString j) (fst (stepNarrative w c)))
     \<or> (p = destOutputFile w j \<and> t = stepOutput w c \<and> stepOutput w c \<noteq> [])"
  by (auto simp: mkStep_def Let_def split: prod.splits)

lemma destOutputFile_not_readme: "destOutputFile w i \<noteq> path_join (DOCS_DIR w) ''readme.md''"
  by (simp add: destOutputFile_def path_join_def DOCS_DIR_def STEPS_DIR_def)

lemma destOutputFile_not_destStepFile: "destOutputFile w i \<noteq> destStepFile w j"
proof
  assume "destOutputFile w i = destStepFile w j"
  then have "toString i @ ''.output.txt'' = toString j @ ''.md''"
    by (simp add: destOutputFile_def destStepFile_def path_join_def)
  then have "last (toString i @ ''.output.txt'') = last (toString j @ ''.md'')" by simp
  then show False by simp
qed

lemma destOutputFile_inj: "destOutputFile w i = destOutputFile w j \<longleftrightarrow> i = j"
  by (auto simp: destOutputFile_def path_join_def dest: toString_inj)

lemma in_mapSteps_ops:
  "(\<exists>p \<in> set (mapSteps w cs). x \<in> set (fst p)) \<longleftrightarrow> (\<exists>j < length cs. x \<in> set (fst (mkStep w (cs ! j) j)))"
proof -
  have "(\<exists>p \<in> set (mapSteps w cs). x \<in> set (fst p))
        \<longleftrightarrow> (\<exists>j < length (mapSteps w cs). x \<in> set (fst (mapSteps w cs ! j)))"
    by (metis in_set_conv_nth)
  then show ?thesis by (auto simp: length_mapSteps nth_mapSteps)
qed

lemma output_written_iff:
  assumes "sync_data w = (ops, Inr pd)" and "execSync w gitLogCommand = Inr logOutput"
    and "i < length (parseLog logOutput)"
  shows "(\<exists>t. WriteFileSync (destOutputFile w i) t \<in> set ops) \<longleftrightarrow> stepOutput w (parseLog logOutput ! i) \<noteq> []"
proof -
  let ?cs = "parseLog logOutput"
  note ops = sync_data_Inr(2) [OF assms(1,2)]
  have no_readme: "WriteFileSync (destOutputFile w i) t \<notin> set (fst (readReadme w))" for t
    using destOutputFile_not_readme [of w i] WriteFileSync_readReadme [of "destOutputFile w i" t w]
    by blast
  have "(\<exists>t. WriteFileSync (destOutputFile w i) t \<in> set ops)
        \<longleftrightarrow> (\<exists>t. \<exists>j < length ?cs. WriteFileSync (destOutputFile w i) t \<in> set (fst (mkStep w (?cs ! j) j)))"
    by (subst ops) (simp add: WriteFileSync_ensureDirs no_readme in_mapSteps_ops)
  also have "\<dots> \<longleftrightarrow> stepOutput w (?cs ! i) \<noteq> []"
    using assms(3)
    by (auto simp: WriteFileSync_mkStep destOutputFile_not_destStepFile destOutputFile_inj)
  finally show ?thesis .
qed

lemma parseLog_two: "parseLog ''abc1234 first\<newline>def5678 second\<newline>''
   = [\<lparr>hash = ''abc1234'', message = ''first''\<rparr>, \<lparr>hash = ''def5678'', message = ''second''\<rparr>]"
  by (simp add: parseLog_def parseLine_def filterBoolean_def)

section \<open>The git accessors and the diff view\<close>

lemma getFileContent_eq:
  "getFileContent w c p =
     Inr (case execSyncBuffer w (gitShowCommand c p) of
            Inl e \<Rightarrow> None
          | Inr buf \<Rightarrow> if 0 \<in> set buf then None else Some (toString_utf8 w buf))"
  by (simp add: getFileContent_def try_catch_def bind_def split: sum.splits)

lemma fileNodeOf_eq:
  "fileNodeOf w c p =
     Inr (case execSyncBuffer w (gitShowCommand c p) of
            Inl e \<Rightarrow> binaryNode p
          | Inr buf \<Rightarrow> if 0 \<in> set buf then binaryNode p else textNode p (toString_utf8 w buf))"
  by (simp add: fileNodeOf_def getFileContent_eq try_catch_def bind_def split: sum.splits)

lemma mapM_total:
  assumes "\<And>x. f x = Inr (g x)"
  shows "mapM f xs = Inr (map g xs)"
  by (induction xs) (simp_all add: assms bind_def)

lemma getCommitFiles_eq:
  "getCommitFiles w c =
     Inr (case execSync w (lsTreeCommand c) of
            Inl e \<Rightarrow> []
          | Inr out \<Rightarrow>
              map (\<lambda>p. case execSyncBuffer w (gitShowCommand c p) of
                          Inl e \<Rightarrow> binaryNode p
                        | Inr buf \<Rightarrow> if 0 \<in> set buf then binaryNode p
                                     else textNode p (toString_utf8 w buf))
                (filterBoolean (split (CHR 0x0A) out)))"
  by (simp add: getCommitFiles_def try_catch_def bind_def mapM_total [OF fileNodeOf_eq]
           split: sum.splits)

lemma getChangedFiles_eq:
  "getChangedFiles w c =
     Inr (case execSync w (changedFilesCommand c) of
            Inl e \<Rightarrow> []
          | Inr out \<Rightarrow> filterBoolean (split (CHR 0x0A) out))"
  by (simp add: getChangedFiles_def try_catch_def bind_def split: sum.splits)

lemma find_map_path:
  assumes "\<And>q. path (f q) = q" and "p \<in> set ps"
  shows "find (\<lambda>n. path n = p) (map f ps) = Some (f p)"
  using assms(2) by (induction ps) (auto simp: assms(1))

lemma path_binaryNode: "path (binaryNode p) = p"
  by (simp add: binaryNode_def)

lemma path_textNode: "path (textNode p t) = p"
  by (simp add: textNode_def)

lemma isBinaryNode_binaryNode: "isBinaryNode (Some (binaryNode p))"
  by (simp add: isBinaryNode_def binaryNode_def)

lemma renderPane_binary_diff:
  assumes "isBinaryNode (find (\<lambda>f. path f = sel) files) \<or> isBinaryNode (find (\<lambda>f. path f = sel) prevFiles)"
  shows "renderPane m (Some sel) hl files prevFiles \<noteq> DiffOf a b c"
    and "sel \<noteq> [] \<Longrightarrow> renderPane Diff (Some sel) True files prevFiles = BinaryDiffNotSupported"
  using assms
  by (auto simp: renderPane_def Let_def isBinaryNode_def split: option.splits if_splits)

lemma getCommitFiles_nodes:
  assumes "execSync w (lsTreeCommand c) = Inr out"
  shows "\<exists>ns. getCommitFiles w c = Inr ns
            \<and> map path ns = filterBoolean (split (CHR 0x0A) out)
            \<and> (\<forall>n \<in> set ns. fileNodeOf w c (path n) = Inr n)
            \<and> (\<forall>p \<in> set (filterBoolean (split (CHR 0x0A) out)).
                  \<forall>n. fileNodeOf w c p = Inr n \<longrightarrow> find (\<lambda>f. path f = p) ns = Some n)"
proof -
  let ?f = "\<lambda>p. case execSyncBuffer w (gitShowCommand c p) of
                   Inl e \<Rightarrow> binaryNode p
                 | Inr buf \<Rightarrow> if 0 \<in> set buf then binaryNode p
                              else textNode p (toString_utf8 w buf)"
  let ?ps = "filterBoolean (split (CHR 0x0A) out)"
  have pf: "path (?f q) = q" for q
    by (simp add: path_binaryNode path_textNode split: sum.splits)
  have ns: "getCommitFiles w c = Inr (map ?f ?ps)"
    by (simp add: getCommitFiles_eq assms)
  have "map path (map ?f ?ps) = ?ps"
    by (simp add: pf o_def)
  moreover have "\<forall>n \<in> set (map ?f ?ps). fileNodeOf w c (path n) = Inr n"
    by (auto simp: fileNodeOf_eq path_binaryNode path_textNode split: sum.splits)
  moreover have "\<forall>p \<in> set ?ps. \<forall>n. fileNodeOf w c p = Inr n \<longrightarrow> find (\<lambda>f. path f = p) (map ?f ?ps) = Some n"
    using find_map_path [of ?f, OF pf] by (auto simp: fileNodeOf_eq)
  ultimately show ?thesis using ns by blast
qed

lemma world_blobs_lsTree:
  "execSync world_blobs (lsTreeCommand ''abc1234'') = Inr ''a.txt\<newline>gone.txt\<newline>logo.png\<newline>''"
  by (simp add: world_blobs_def example_world_def exec_table_def)

lemma world_blobs_logo:
  "execSyncBuffer world_blobs (gitShowCommand ''abc1234'' ''logo.png'') = Inr [137, 80, 0, 71]"
  by (simp add: world_blobs_def example_world_def buffer_table_def gitShowCommand_def)

lemma world_blobs_gone:
  "execSyncBuffer world_blobs (gitShowCommand ''abc1234'' ''gone.txt'') = Inl (ExecError 128)"
  by (simp add: world_blobs_def example_world_def buffer_table_def gitShowCommand_def)

section \<open>Parsing what git prints\<close>

lemma isHex_not_space: "isHex c \<Longrightarrow> \<not> isSpace c"
  by (auto simp: isHex_def isDigit_def isSpace_def)

lemma hex_no_space: "list_all isHex h \<Longrightarrow> CHR '' '' \<notin> set h"
  by (auto simp: list_all_iff isHex_def isDigit_def)

lemma hex_no_LF: "list_all isHex h \<Longrightarrow> CHR 0x0A \<notin> set h"
  by (auto simp: list_all_iff isHex_def isDigit_def)

lemma list_all_take: "list_all P xs \<Longrightarrow> list_all P (take n xs)"
  by (auto simp: list_all_iff dest: in_set_takeD)

lemma filterBoolean_lines:
  "\<forall>l \<in> set ls. l \<noteq> [] \<Longrightarrow> filterBoolean (ls @ [[]]) = ls"
  by (induction ls) (auto simp: filterBoolean_def)

lemma parseLog_lines:
  assumes "\<forall>c \<in> set cs. CHR '' '' \<notin> set (h c) \<and> CHR 0x0A \<notin> set (h c) \<and> CHR 0x0A \<notin> set (s c)"
  shows "parseLog (concat (map (\<lambda>c. h c @ '' '' @ s c @ ''\<newline>'') cs))
         = map (\<lambda>c. \<lparr>hash = h c, message = s c\<rparr>) cs"
proof -
  let ?ls = "map (\<lambda>c. h c @ '' '' @ s c) cs"
  have eq: "concat (map (\<lambda>c. h c @ '' '' @ s c @ ''\<newline>'') cs) = concat (map (\<lambda>l. l @ ''\<newline>'') ?ls) @ []"
    by (simp add: o_def)
  have noLF: "\<forall>l \<in> set ?ls. CHR 0x0A \<notin> set l"
    using assms by auto
  have "split (CHR 0x0A) (concat (map (\<lambda>c. h c @ '' '' @ s c @ ''\<newline>'') cs)) = ?ls @ [[]]"
    unfolding eq by (subst split_lines [OF noLF]) simp
  moreover have "filterBoolean (?ls @ [[]]) = ?ls"
    by (rule filterBoolean_lines) auto
  moreover have "map parseLine ?ls = map (\<lambda>c. \<lparr>hash = h c, message = s c\<rparr>) cs"
    using assms parseLine_hash_message by auto
  ultimately show ?thesis by (simp add: parseLog_def)
qed

lemma parseLog_git_log_short:
  assumes "wf_repository r"
  shows "parseLog (concat (map (\<lambda>c. short_hash r c @ '' '' @ subject c @ ''\<newline>'') (history r)))
         = map (\<lambda>c. \<lparr>hash = short_hash r c, message = subject c\<rparr>) (history r)"
proof (rule parseLog_lines, intro ballI)
  fix c
  assume "c \<in> set (history r)"
  with assms have wf: "wf_commit c"
    by (simp add: wf_repository_def list_all_iff)
  then have "list_all isHex (short_hash r c)"
    by (simp add: wf_commit_def short_hash_def list_all_take)
  with wf show "CHR '' '' \<notin> set (short_hash r c) \<and> CHR 0x0A \<notin> set (short_hash r c)
                \<and> CHR 0x0A \<notin> set (subject c)"
    by (simp add: hex_no_space hex_no_LF wf_commit_def)
qed

lemma trimEnd_decomp: "s = trimEnd s @ rev (takeWhile isSpace (rev s))"
proof -
  have "rev (takeWhile isSpace (rev s) @ dropWhile isSpace (rev s)) = s"
    by (simp only: takeWhile_dropWhile_id rev_rev_ident)
  then show ?thesis
    by (simp only: rev_append trimEnd_def)
qed

lemma trimEnd_append_nonspace:
  assumes "a \<noteq> []" and "\<not> isSpace (last a)"
  shows "trimEnd (a @ b) = a @ trimEnd b"
proof -
  have "dropWhile isSpace (rev b @ rev a) = (if \<forall>x \<in> set (rev b). isSpace x then dropWhile isSpace (rev a) else dropWhile isSpace (rev b) @ rev a)"
    by (simp add: dropWhile_append)
  moreover have "dropWhile isSpace (rev a) = rev a"
    using assms by (cases a rule: rev_cases) auto
  moreover have "(\<forall>x \<in> set (rev b). isSpace x) \<Longrightarrow> dropWhile isSpace (rev b) = []"
    by simp
  ultimately show ?thesis by (auto simp: trimEnd_def)
qed

lemma hash_parseLine_prefix:
  assumes "CHR '' '' \<notin> set h" and "t = [] \<or> (\<exists>x. t = CHR '' '' # x)"
  shows "hash (parseLine (h @ t)) = h"
  using assms by (auto simp: parseLine_hash_only parseLine_hash_message)

lemma trimEnd_line_tail:
  assumes "CHR 0x0A \<notin> set s"
  shows "CHR 0x0A \<notin> set (trimEnd (CHR '' '' # s @ ''\<newline>''))
         \<and> (trimEnd (CHR '' '' # s @ ''\<newline>'') = []
              \<or> (\<exists>x. trimEnd (CHR '' '' # s @ ''\<newline>'') = CHR '' '' # x))"
proof -
  let ?t = "CHR '' '' # s @ ''\<newline>''"
  let ?u = "rev (takeWhile isSpace (rev ?t))"
  have dec: "?t = trimEnd ?t @ ?u" by (rule trimEnd_decomp)
  have "?u \<noteq> []" by (simp add: isSpace_def)
  then obtain v where u: "?u = v @ [last ?u]"
    by (metis append_butlast_last_id)
  from dec have "last ?t = last ?u"
    using \<open>?u \<noteq> []\<close> by (metis last_appendR)
  then have "last ?u = CHR 0x0A" by simp
  with dec u have "(CHR '' '' # s) @ ''\<newline>'' = (trimEnd ?t @ v) @ ''\<newline>''"
    by (metis append.assoc append_Cons)
  then have pre: "CHR '' '' # s = trimEnd ?t @ v" by (simp only: append_same_eq)
  then have "set (trimEnd ?t) \<subseteq> set (CHR '' '' # s)"
    by (metis set_append Un_upper1)
  with assms have noLF: "CHR 0x0A \<notin> set (trimEnd ?t)" by auto
  from pre have "trimEnd ?t = [] \<or> (\<exists>x. trimEnd ?t = CHR '' '' # x)"
    by (cases "trimEnd ?t") auto
  with noLF show ?thesis by blast
qed

lemma git_log_full_hashes:
  assumes wf: "list_all wf_commit cs" and ne: "cs \<noteq> []"
  shows "map hash (map parseLine (split (CHR 0x0A)
           (trim (concat (map (\<lambda>c. full_hash c @ '' '' @ subject c @ ''\<newline>'') cs)))))
         = map full_hash cs"
proof -
  let ?L = "\<lambda>c. full_hash c @ '' '' @ subject c"
  let ?out = "concat (map (\<lambda>c. full_hash c @ '' '' @ subject c @ ''\<newline>'') cs)"
  from ne obtain cs' c where cs: "cs = cs' @ [c]" by (metis rev_exhaust)
  let ?P = "concat (map (\<lambda>l. l @ ''\<newline>'') (map ?L cs'))"
  let ?h = "full_hash c" and ?s = "subject c"
  let ?t = "CHR '' '' # ?s @ ''\<newline>''"
  have wfc: "wf_commit d" if "d \<in> set cs" for d
    using wf that by (simp add: list_all_iff)
  have hex: "list_all isHex (full_hash d)" "full_hash d \<noteq> []" "CHR 0x0A \<notin> set (subject d)"
    if "d \<in> set cs" for d
    using wfc [OF that] by (auto simp: wf_commit_def)
  have c_in: "c \<in> set cs" by (simp add: cs)
  have out: "?out = (?P @ ?h) @ ?t" by (simp add: cs o_def)
  \<comment> \<open>nothing to trim at the start\<close>
  obtain c0 rest where c0: "cs = c0 # rest" using ne by (cases cs) auto
  then have "c0 \<in> set cs" by simp
  from hex(2) [OF this] obtain x xs where h0: "full_hash c0 = x # xs" by (cases "full_hash c0") auto
  have "isHex x" using hex(1) [OF \<open>c0 \<in> set cs\<close>] h0 by simp
  then have "\<not> isSpace x" by (rule isHex_not_space)
  then have start: "trimStart ?out = ?out" by (simp add: c0 h0 trimStart_def)
  \<comment> \<open>the end of the last line\<close>
  have "isHex (last ?h)" using hex(1,2) [OF c_in] by (simp add: list_all_iff)
  then have "\<not> isSpace (last (?P @ ?h))" using hex(2) [OF c_in] by (simp add: isHex_not_space)
  moreover have "?P @ ?h \<noteq> []" using hex(2) [OF c_in] by simp
  ultimately have "trimEnd ((?P @ ?h) @ ?t) = (?P @ ?h) @ trimEnd ?t"
    by (rule trimEnd_append_nonspace [rotated])
  with out start have tr: "trim ?out = ?P @ (?h @ trimEnd ?t)" by (simp add: trim_def)
  note tail = trimEnd_line_tail [OF hex(3) [OF c_in]]
  have noLF: "\<forall>l \<in> set (map ?L cs'). CHR 0x0A \<notin> set l"
    using hex(1,3) by (auto simp: cs hex_no_LF)
  have "split (CHR 0x0A) (trim ?out) = map ?L cs' @ split (CHR 0x0A) (?h @ trimEnd ?t)"
    unfolding tr by (rule split_lines [OF noLF])
  also have "split (CHR 0x0A) (?h @ trimEnd ?t) = [?h @ trimEnd ?t]"
    using tail hex(1) [OF c_in] by (intro split_no_sep) (simp add: hex_no_LF)
  finally have lines: "split (CHR 0x0A) (trim ?out) = map ?L cs' @ [?h @ trimEnd ?t]" .
  have "hash (parseLine (?L d)) = full_hash d" if "d \<in> set cs'" for d
    using parseLine_hash_message [of "full_hash d" "subject d"] hex(1) [of d] that
    by (simp add: cs hex_no_space)
  moreover have "hash (parseLine (?h @ trimEnd ?t)) = ?h"
    using tail hex(1) [OF c_in] by (intro hash_parseLine_prefix) (simp_all add: hex_no_space)
  ultimately show ?thesis
    unfolding lines by (simp add: cs)
qed

section \<open>Splitting the narrative file\<close>

lemma linesOf_not_Nil: "linesOf s \<noteq> []"
  by (induction s) (auto simp: cons_hd_Cons)

lemma linesOf_Cons:
  "linesOf (c # cs) = (if isLineTerminator c then [] # linesOf cs
                       else (c # hd (linesOf cs)) # tl (linesOf cs))"
  by (simp add: cons_hd_Cons linesOf_not_Nil)

lemma splitH1_not_Nil: "splitH1 bol s \<noteq> []"
  by (induction bol s rule: splitH1.induct) (auto simp: cons_hd_Cons)

lemma length_cons_hd: "ps \<noteq> [] \<Longrightarrow> length (cons_hd c ps) = length ps"
  by (cases ps) auto

lemma take1_hd_linesOf: "take (Suc 0) (hd (linesOf cs)) = '' '' \<longleftrightarrow> take (Suc 0) cs = '' ''"
  by (cases cs) (auto simp: linesOf_Cons isLineTerminator_def simp del: linesOf.simps(2))

lemma isH1Start_Nil: "\<not> isH1Start []"
  by (simp add: isH1Start_def)

lemma isH1Start_Cons: "isH1Start (c # l) \<longleftrightarrow> c = CHR ''#'' \<and> take (Suc 0) l = '' ''"
  by (cases l) (auto simp: isH1Start_def)

lemma length_splitH1_gen:
  "length (splitH1 bol s)
     = Suc (length (filter isH1Start (tl (linesOf s)))
            + (if bol \<and> isH1Start (hd (linesOf s)) then 1 else 0))"
proof (induction bol s rule: splitH1.induct)
  case (1 bol)
  show ?case by (simp add: isH1Start_Nil)
next
  case (2 bol c cs)
  show ?case
  proof (cases "bol \<and> c = CHR ''#'' \<and> take 1 cs = '' ''")
    case True
    then obtain ds where cs: "cs = CHR '' '' # ds"
      by (cases cs) auto
    from True have ih: "length (splitH1 False (drop 1 cs))
        = Suc (length (filter isH1Start (tl (linesOf (drop 1 cs)))))"
      using "2.IH"(1) by simp
    have "linesOf (c # cs) = (CHR ''#'' # CHR '' '' # hd (linesOf ds)) # tl (linesOf ds)"
      using True cs by (simp add: linesOf_Cons isLineTerminator_def del: linesOf.simps)
    with True ih cs show ?thesis
      by (simp add: isH1Start_Cons)
  next
    case False
    then have ih: "length (splitH1 (isLineTerminator c) cs)
        = Suc (length (filter isH1Start (tl (linesOf cs)))
               + (if isLineTerminator c \<and> isH1Start (hd (linesOf cs)) then 1 else 0))"
      using "2.IH"(2) by simp
    have "splitH1 bol (c # cs) = cons_hd c (splitH1 (isLineTerminator c) cs)"
      using False by (simp only: splitH1.simps if_False)
    then have len: "length (splitH1 bol (c # cs)) = length (splitH1 (isLineTerminator c) cs)"
      by (simp only: length_cons_hd [OF splitH1_not_Nil])
    show ?thesis
    proof (cases "isLineTerminator c")
      case True
      have "filter isH1Start (linesOf cs)
            = (if isH1Start (hd (linesOf cs)) then [hd (linesOf cs)] else [])
              @ filter isH1Start (tl (linesOf cs))"
        using linesOf_not_Nil [of cs] by (cases "linesOf cs") auto
      then have cnt: "length (filter isH1Start (linesOf cs))
            = length (filter isH1Start (tl (linesOf cs)))
              + (if isH1Start (hd (linesOf cs)) then 1 else 0)"
        by simp
      have "linesOf (c # cs) = [] # linesOf cs"
        using True by simp
      with True len ih cnt show ?thesis
        by (simp add: isH1Start_Nil del: linesOf.simps splitH1.simps)
    next
      case nl: False
      have "\<not> (bol \<and> isH1Start (c # hd (linesOf cs)))"
        using False by (simp add: isH1Start_Cons take1_hd_linesOf)
      with nl len ih show ?thesis
        by (simp add: linesOf_Cons del: linesOf.simps)
    qed
  qed
qed

lemma length_splitH1: "length (splitH1 True s) = Suc (h1Count s)"
proof -
  have "filter isH1Start (linesOf s)
        = (if isH1Start (hd (linesOf s)) then [hd (linesOf s)] else [])
          @ filter isH1Start (tl (linesOf s))"
    using linesOf_not_Nil [of s] by (cases "linesOf s") auto
  then show ?thesis
    by (simp add: length_splitH1_gen h1Count_def)
qed

section \<open>The step list of a repository\<close>

lemma mkStep_fields:
  "step_id (snd (mkStep w c i)) = toString i"
  "step_slug (snd (mkStep w c i)) = toString i"
  "step_commit (snd (mkStep w c i)) = hash c"
  "step_commitMessage (snd (mkStep w c i)) = message c"
  by (simp_all add: mkStep_def Let_def split: prod.splits)

lemma mapSteps_fields:
  "map step_id (map snd (mapSteps w cs)) = map toString [0..<length cs]"
  "map step_slug (map snd (mapSteps w cs)) = map toString [0..<length cs]"
  "map step_commit (map snd (mapSteps w cs)) = map hash cs"
  by (auto intro!: nth_equalityI simp: length_mapSteps nth_mapSteps mkStep_fields)

lemma sync_data_steps_of_repository:
  assumes "wf_repository r" and "execSync w gitLogCommand = git_log_short r"
    and "sync_data w = (ops, Inr pd)"
  shows "map step_id (steps pd) = map toString [0..<length (history r)]"
    and "map step_slug (steps pd) = map toString [0..<length (history r)]"
    and "map step_commit (steps pd) = map (short_hash r) (history r)"
proof -
  have ne: "history r \<noteq> []"
  proof
    assume "history r = []"
    with assms(2) have "execSync w gitLogCommand = Inl (ExecError 128)"
      by (simp add: git_log_short_def)
    with assms(3) show False
      by (auto simp: sync_data_def split: prod.splits sum.splits)
  qed
  let ?out = "concat (map (\<lambda>c. short_hash r c @ '' '' @ subject c @ ''\<newline>'') (history r))"
  from ne assms(2) have log: "execSync w gitLogCommand = Inr ?out"
    by (simp add: git_log_short_def)
  note st = sync_data_Inr(1) [OF assms(3) log]
  have cs: "parseLog ?out = map (\<lambda>c. \<lparr>hash = short_hash r c, message = subject c\<rparr>) (history r)"
    by (rule parseLog_git_log_short [OF assms(1)])
  show "map step_id (steps pd) = map toString [0..<length (history r)]"
    unfolding st cs mapSteps_fields by simp
  show "map step_slug (steps pd) = map toString [0..<length (history r)]"
    unfolding st cs mapSteps_fields by simp
  show "map step_commit (steps pd) = map (short_hash r) (history r)"
    unfolding st cs mapSteps_fields by (simp add: o_def)
qed

lemma map_nth_upt: "n \<le> length xs \<Longrightarrow> map (\<lambda>i. f (xs ! i)) [0..<n] = take n (map f xs)"
  by (auto intro!: nth_equalityI)

lemma getSteps_of_repository:
  assumes "wf_repository r" and "execSync w gitLogFullCommand = git_log_full r"
  shows "length (getSteps w) = min (length (history r)) (sectionCount w)
       \<and> map st_id (getSteps w) = map toString [0..<length (getSteps w)]
       \<and> map st_slug (getSteps w) = map toString [0..<length (getSteps w)]
       \<and> map st_commit (getSteps w) = take (length (getSteps w)) (map full_hash (history r))"
proof (cases "history r = []")
  case True
  with assms(2) have "getSteps w = []"
    by (simp add: git_log_full_def getSteps_def)
  with True show ?thesis by simp
next
  case False
  let ?out = "concat (map (\<lambda>c. full_hash c @ '' '' @ subject c @ ''\<newline>'') (history r))"
  let ?commits = "map parseLine (split (CHR 0x0A) (trim ?out))"
  from False assms(2) have log: "execSync w gitLogFullCommand = Inr ?out"
    by (simp add: git_log_full_def)
  have hs: "map hash ?commits = map full_hash (history r)"
    using assms(1) False by (intro git_log_full_hashes) (simp_all add: wf_repository_def)
  have len: "length ?commits = length (history r)"
    using arg_cong [OF hs, of length] by (simp only: length_map)
  show ?thesis
  proof (cases "readFileSync w STEPS_PATH")
    case (Inl e)
    then have "getSteps w = []" by (simp add: getSteps_def log)
    with Inl show ?thesis by (simp add: sectionCount_def)
  next
    case (Inr fileContent)
    let ?sections = "map parseSection (drop 1 (splitH1 True fileContent))"
    let ?n = "min (length ?commits) (length ?sections)"
    have gs: "getSteps w = map (\<lambda>i. \<lparr>st_id = toString i, st_slug = toString i,
                             st_title = fst (?sections ! i),
                             st_commit = hash (?commits ! i),
                             st_commitMessage = message (?commits ! i),
                             st_content = snd (?sections ! i)\<rparr>) [0..<?n]"
      unfolding getSteps_def log Inr by (simp only: Let_def sum.case)
    have ns: "length ?sections = sectionCount w"
      by (simp add: sectionCount_def Inr length_splitH1)
    have n: "length (getSteps w) = ?n" unfolding gs by simp
    have A: "length (getSteps w) = min (length (history r)) (sectionCount w)"
      by (simp only: n len ns)
    have B: "map st_id (getSteps w) = map toString [0..<length (getSteps w)]"
      unfolding n unfolding gs by (simp add: o_def)
    have C: "map st_slug (getSteps w) = map toString [0..<length (getSteps w)]"
      unfolding n unfolding gs by (simp add: o_def)
    have "map st_commit (getSteps w) = map (\<lambda>i. hash (?commits ! i)) [0..<?n]"
      unfolding gs by (simp add: o_def)
    also have "\<dots> = take ?n (map hash ?commits)"
      by (rule map_nth_upt) simp
    finally have D: "map st_commit (getSteps w) = take (length (getSteps w)) (map full_hash (history r))"
      by (simp only: n hs)
    from A B C D show ?thesis by blast
  qed
qed

lemma wf_repo_two: "wf_repository repo_two"
  by (simp add: wf_repository_def wf_commit_def repo_two_def isHex_def isDigit_def)

lemma repo_two_short: "execSync world_repo_two gitLogCommand = git_log_short repo_two"
  by (simp add: world_repo_two_def example_world_def exec_table_def git_log_short_def repo_two_def
      short_hash_def)

lemma repo_two_full: "execSync world_repo_two gitLogFullCommand = git_log_full repo_two"
  by (simp add: world_repo_two_def example_world_def exec_table_def git_log_full_def repo_two_def
      gitLogFullCommand_def gitLogCommand_def)

lemma repo_two_readme: "snd (readReadme world_repo_two) = Inr emptyConfig"
  by (simp add: readReadme_def world_repo_two_def example_world_def)

lemma repo_two_sections: "sectionCount world_repo_two = 1"
  by (simp add: sectionCount_def world_repo_two_def example_world_def h1Count_def isH1Start_def
      isLineTerminator_def)

lemma toString_small: "toString 0 = ''0''" "toString 1 = ''1''" "toString (Suc 0) = ''1''"
  by (simp_all add: toString.simps digit_def)

lemma repo_two_run:
  "sync_data world_repo_two
     = (fst (sync_data world_repo_two), Inr (projr (snd (sync_data world_repo_two))))"
proof -
  have "execSync world_repo_two gitLogCommand = Inr ''abc1234 first\<newline>def5678 second\<newline>''"
    by (simp add: world_repo_two_def example_world_def exec_table_def)
  from sync_data_total [OF repo_two_readme this] show ?thesis by auto
qed

lemma wf_repo_mixed: "wf_repository repo_mixed"
  by (simp add: wf_repository_def wf_commit_def repo_mixed_def isHex_def isDigit_def)

lemma mixed_short: "execSync world_mixed gitLogCommand = git_log_short repo_mixed"
  by (simp add: world_mixed_def example_world_def exec_table_def git_log_short_def repo_mixed_def
      short_hash_def)

lemma mixed_full: "execSync world_mixed gitLogFullCommand = git_log_full repo_mixed"
  by (simp add: world_mixed_def example_world_def exec_table_def git_log_full_def repo_mixed_def
      gitLogFullCommand_def gitLogCommand_def)

lemma mixed_readme: "snd (readReadme world_mixed) = Inr emptyConfig"
  by (simp add: readReadme_def world_mixed_def example_world_def)

lemma mixed_sections: "sectionCount world_mixed = 3"
  by (simp add: sectionCount_def world_mixed_def example_world_def h1Count_def isH1Start_def
      isLineTerminator_def)

lemma mixed_run:
  "sync_data world_mixed
     = (fst (sync_data world_mixed), Inr (projr (snd (sync_data world_mixed))))"
proof -
  have "execSync world_mixed gitLogCommand = Inr ''abc1234 first\<newline>def56789 second\<newline>''"
    by (simp add: world_mixed_def example_world_def exec_table_def)
  from sync_data_total [OF mixed_readme this] show ?thesis by auto
qed

lemma sync_data_completes_iff:
  "(\<exists>pd. snd (sync_data w) = Inr pd)
     \<longleftrightarrow> (\<exists>cfg. snd (readReadme w) = Inr cfg) \<and> (\<exists>out. execSync w gitLogCommand = Inr out)"
  by (auto simp: sync_data_def Let_def split: prod.splits sum.splits)

lemma short_hash_facts:
  assumes "wf_commit c"
  shows "length (short_hash r c) = min (abbrev r c) 40"
    and "short_hash r c = full_hash c \<longleftrightarrow> 40 \<le> abbrev r c"
proof -
  from assms have len: "length (full_hash c) = 40" by (simp add: wf_commit_def)
  then show "length (short_hash r c) = min (abbrev r c) 40"
    by (simp add: short_hash_def min_def)
  show "short_hash r c = full_hash c \<longleftrightarrow> 40 \<le> abbrev r c"
  proof
    assume "short_hash r c = full_hash c"
    then have "length (take (abbrev r c) (full_hash c)) = length (full_hash c)"
      by (simp add: short_hash_def)
    with len show "40 \<le> abbrev r c" by simp
  next
    assume "40 \<le> abbrev r c"
    with len show "short_hash r c = full_hash c" by (simp add: short_hash_def)
  qed
qed

section \<open>Steps without a narrative; runs that stop at the log\<close>

lemma steps_of_run:
  assumes "sync_data w = (ops, Inr pd)" and "execSync w gitLogCommand = Inr logOutput"
  shows "length (steps pd) = length (parseLog logOutput)"
    and "i < length (parseLog logOutput) \<Longrightarrow> steps pd ! i = snd (mkStep w (parseLog logOutput ! i) i)"
  by (simp_all add: sync_data_Inr(1) [OF assms] length_mapSteps nth_mapSteps)

lemma step_file_written:
  assumes "sync_data w = (ops, Inr pd)" and "execSync w gitLogCommand = Inr logOutput"
    and "i < length (parseLog logOutput)"
  shows "WriteFileSync (destStepFile w i)
           (stepFileContent (snd (stepNarrative w (parseLog logOutput ! i)))
              (hash (parseLog logOutput ! i)) (toString i)
              (fst (stepNarrative w (parseLog logOutput ! i)))) \<in> set ops"
proof -
  let ?c = "parseLog logOutput ! i"
  have "WriteFileSync (destStepFile w i)
           (stepFileContent (snd (stepNarrative w ?c)) (hash ?c) (toString i) (fst (stepNarrative w ?c)))
        \<in> set (fst (mkStep w ?c i))"
    by (simp add: WriteFileSync_mkStep)
  with assms(3) have "\<exists>p \<in> set (mapSteps w (parseLog logOutput)).
      WriteFileSync (destStepFile w i)
           (stepFileContent (snd (stepNarrative w ?c)) (hash ?c) (toString i) (fst (stepNarrative w ?c)))
        \<in> set (fst p)"
    unfolding in_mapSteps_ops by blast
  then show ?thesis
    by (subst sync_data_Inr(2) [OF assms(1,2)]) simp
qed

lemma stepNarrative_missing:
  "execSync w (gitShowCommand (hash c) ''STEP.md'') = Inl e \<Longrightarrow>
   stepNarrative w c = (noStepText (message c), message c)"
  by (simp add: stepNarrative_def)

lemma step_title_mkStep: "step_title (snd (mkStep w c i)) = snd (stepNarrative w c)"
  by (simp add: mkStep_def Let_def split: prod.splits)

lemma two_commits_log:
  "execSync world_two_commits gitLogCommand = Inr ''abc1234 first\<newline>def5678 second\<newline>''"
  by (simp add: world_two_commits_def example_world_def exec_table_def)

lemma two_commits_readme: "snd (readReadme world_two_commits) = Inr emptyConfig"
  by (simp add: readReadme_def world_two_commits_def example_world_def)

lemma two_commits_run:
  "sync_data world_two_commits
     = (fst (sync_data world_two_commits), Inr (projr (snd (sync_data world_two_commits))))"
  using sync_data_total [OF two_commits_readme two_commits_log] by auto

lemma two_commits_no_step_md:
  "execSync world_two_commits (gitShowCommand ''abc1234'' ''STEP.md'') = Inl (ExecError 128)"
  "execSync world_two_commits (gitShowCommand ''def5678'' ''STEP.md'') = Inl (ExecError 128)"
  by (simp_all add: world_two_commits_def example_world_def exec_table_def gitShowCommand_def
      gitLogCommand_def)

lemma two_commits_output:
  "stepOutput world_two_commits \<lparr>hash = ''abc1234'', message = ''first''\<rparr> = ''ok\<newline>''"
  "stepOutput world_two_commits \<lparr>hash = ''def5678'', message = ''second''\<rparr> = []"
  by (simp_all add: stepOutput_def world_two_commits_def example_world_def exec_table_def
      gitShowCommand_def gitLogCommand_def)

lemma ensureDirs_ops:
  "op \<in> set (ensureDirs w) \<Longrightarrow>
     op = RmSync (STEPS_DIR w) \<or> op = MkdirSync (STEPS_DIR w) \<or> op = MkdirSync (DOCS_DIR w)"
  by (auto simp: ensureDirs_def split: if_splits)

lemma readReadme_ops:
  "op \<in> set (fst (readReadme w)) \<Longrightarrow> \<exists>t. op = WriteFileSync (path_join (DOCS_DIR w) ''readme.md'') t"
  by (auto simp: readReadme_def Let_def split: if_splits sum.splits option.splits prod.splits)

lemma sync_data_log_failure:
  assumes "execSync w gitLogCommand = Inl e"
  shows "\<exists>e'. sync_data w = (ensureDirs w @ fst (readReadme w), Inl e')"
  using assms by (auto simp: sync_data_def split: prod.splits sum.splits)

lemma getSteps_log_failure: "execSync w gitLogFullCommand = Inl e \<Longrightarrow> getSteps w = []"
  by (simp add: getSteps_def)

lemma no_commits_log: "execSync world_no_commits gitLogCommand = Inl (ExecError 128)"
  by (simp add: world_no_commits_def example_world_def exec_table_def)

lemma no_commits_dirs:
  "ensureDirs world_no_commits
     = [MkdirSync ''/site/src/content/steps'', MkdirSync ''/site/src/content/docs'']"
  by (simp add: ensureDirs_def world_no_commits_def example_world_def STEPS_DIR_def DOCS_DIR_def
      path_join_def)

lemma no_commits_readme:
  "readReadme world_no_commits
     = ([WriteFileSync ''/site/src/content/docs/readme.md'' ''Hello\<newline>''], Inr emptyConfig)"
proof -
  have fm: "frontmatterMatch ''# My Repo\<newline>Hello\<newline>'' = None"
    by (simp add: frontmatterMatch_def isSpace_def)
  have h1: "stripH1 ''# My Repo\<newline>Hello\<newline>'' = ''Hello\<newline>''"
    by (simp add: stripH1_def isSpace_def isLineTerminator_def)
  show ?thesis
    by (simp add: readReadme_def world_no_commits_def example_world_def fm h1 DOCS_DIR_def
        path_join_def)
qed

lemma no_commits_run:
  "sync_data world_no_commits
     = ([MkdirSync ''/site/src/content/steps'', MkdirSync ''/site/src/content/docs'',
         WriteFileSync ''/site/src/content/docs/readme.md'' ''Hello\<newline>''],
        Inl (ExecError 128))"
  by (simp add: sync_data_def no_commits_readme no_commits_log no_commits_dirs)

section \<open>Title and document number from the repository name\<close>

lemma of_char_toUpper:
  assumes "isLower c \<or> isLatin1Lower c"
  shows "(of_char (toUpperCase_char c) :: nat) = of_char c - 32"
proof -
  have "(of_char c :: nat) < 256" by simp
  then have "(of_char c :: nat) - 32 < 256" by arith
  with assms show ?thesis
    by (simp add: toUpperCase_char_def)
qed

lemma isWord_not_Latin1: "isWord c \<Longrightarrow> \<not> isLatin1Lower c"
  by (auto simp: isWord_def isLower_def isUpper_def isDigit_def isLatin1Lower_def)

lemma isWord_toUpperCase_char: "isWord c \<Longrightarrow> isWord (toUpperCase_char c)"
proof (cases "isLower c")
  case True
  then have "isLower c \<or> isLatin1Lower c" by simp
  from of_char_toUpper [OF this] True have "isUpper (toUpperCase_char c)"
    unfolding isUpper_def isLower_def by arith
  then show ?thesis by (simp add: isWord_def)
next
  case False
  assume "isWord c"
  with False isWord_not_Latin1 [of c] show ?thesis by (simp add: toUpperCase_char_def)
qed

lemma toUpperCase_char_idem: "toUpperCase_char (toUpperCase_char c) = toUpperCase_char c"
proof (cases "isLower c \<or> isLatin1Lower c")
  case True
  from of_char_toUpper [OF True] True
  have "\<not> isLower (toUpperCase_char c)" and "\<not> isLatin1Lower (toUpperCase_char c)"
    unfolding isLower_def isLatin1Lower_def by arith+
  then show ?thesis by (simp add: toUpperCase_char_def [of "toUpperCase_char c"])
next
  case False
  then show ?thesis by (simp add: toUpperCase_char_def)
qed

lemma isWord_not_space: "isWord c \<Longrightarrow> c \<noteq> CHR '' ''"
  by (auto simp: isWord_def isLower_def isUpper_def isDigit_def)

lemma isWord_not_dash: "isWord c \<Longrightarrow> c \<noteq> CHR ''-''"
  by (auto simp: isWord_def isLower_def isUpper_def isDigit_def)

lemma join_Cons_head: "join sep ((x # w) # ws) = x # join sep (w # ws)"
  by (cases ws) auto

lemma join_Nil_head: "ws \<noteq> [] \<Longrightarrow> join sep ([] # ws) = sep @ join sep ws"
  by (cases ws) auto

lemma capitalize_Nil: "capitalize [] = []"
  by (simp add: capitalize_def)

lemma capitalize_Cons: "capitalize (c # cs) = toUpperCase_char c # cs"
  by (simp add: capitalize_def)

lemma upcaseWordStarts_words:
  assumes "list_all (\<lambda>c. isWord c \<or> c = CHR ''-'') s"
  shows "upcaseWordStarts p (replaceDashes s)
         = join '' '' ((if p then hd (split (CHR ''-'') s) else capitalize (hd (split (CHR ''-'') s)))
                       # map capitalize (tl (split (CHR ''-'') s)))"
  using assms
proof (induction s arbitrary: p)
  case Nil
  show ?case by (simp add: replaceDashes_def capitalize_Nil)
next
  case (Cons c cs)
  from Cons.prems have rest: "list_all (\<lambda>c. isWord c \<or> c = CHR ''-'') cs"
    and c: "isWord c \<or> c = CHR ''-''" by simp_all
  note IH = Cons.IH [OF rest]
  have ne: "split (CHR ''-'') cs \<noteq> []" by (rule split_not_Nil)
  then obtain w ws where sp: "split (CHR ''-'') cs = w # ws" by (cases "split (CHR ''-'') cs") auto
  show ?case
  proof (cases "c = CHR ''-''")
    case True
    have "\<not> isWord (CHR '' '')" by (simp add: isWord_def isLower_def isUpper_def isDigit_def)
    with True IH [of False] sp show ?thesis
      by (simp add: replaceDashes_def join_Nil_head capitalize_Nil)
  next
    case False
    with c have w: "isWord c" by simp
    with False IH [of True] sp show ?thesis
      by (simp add: replaceDashes_def join_Cons_head capitalize_Cons)
  qed
qed

lemma defaultTitle_words:
  "list_all (\<lambda>c. isWord c \<or> c = CHR ''-'') name \<Longrightarrow>
   defaultTitle name = join '' '' (map capitalize (split (CHR ''-'') name))"
  using split_not_Nil [of "CHR ''-''" name]
  by (cases "split (CHR ''-'') name") (simp_all add: defaultTitle_def upcaseWordStarts_words)

lemma split_parts: "x \<in> set (split sep s) \<Longrightarrow> set x \<subseteq> set s - {sep}"
proof (induction s arbitrary: x)
  case Nil
  then show ?case by simp
next
  case (Cons c cs)
  obtain w ws where sp: "split sep cs = w # ws"
    using split_not_Nil [of sep cs] by (cases "split sep cs") auto
  show ?case
  proof (cases "c = sep")
    case True
    with Cons show ?thesis by auto
  next
    case False
    with Cons.prems sp have "x = c # w \<or> x \<in> set ws" by simp
    then show ?thesis
    proof
      assume "x = c # w"
      moreover have "set w \<subseteq> set cs - {sep}" using Cons.IH [of w] sp by simp
      ultimately show ?thesis using False by auto
    next
      assume "x \<in> set ws"
      then have "set x \<subseteq> set cs - {sep}" using Cons.IH [of x] sp by simp
      then show ?thesis by auto
    qed
  qed
qed

lemma split_join:
  assumes "xs \<noteq> []" and "\<forall>x \<in> set xs. sep \<notin> set x"
  shows "split sep (join [sep] xs) = xs"
  using assms
proof (induction xs)
  case Nil
  then show ?case by simp
next
  case (Cons p ps)
  show ?case
  proof (cases ps)
    case Nil
    with Cons.prems show ?thesis by (simp add: split_no_sep)
  next
    case (Cons q qs)
    with Cons.prems Cons.IH show ?thesis by (simp add: split_append_sep)
  qed
qed

lemma sync_data_fields:
  assumes "sync_data w = (ops, Inr pd)"
  shows "\<exists>cfg. snd (readReadme w) = Inr cfg
           \<and> title pd = or_else (cfg_title cfg) (defaultTitle (repoName pd))
           \<and> docNumber pd = or_else (cfg_docNumber cfg) (defaultDocNumber (repoName pd) (startDate pd))"
    and "repoName pd = snd (repoInfo w)"
    and "startDate pd = fst (commitDates w)"
  using assms by (auto simp: sync_data_def Let_def split: prod.splits sum.splits)

lemma readReadme_no_frontmatter:
  assumes "\<not> existsSync w (path_join (SOURCE_REPO w) ''README.md'')
           \<or> (\<exists>raw. readFileSync w (path_join (SOURCE_REPO w) ''README.md'') = Inr raw
                     \<and> frontmatterMatch raw = None)"
  shows "snd (readReadme w) = Inr emptyConfig"
  using assms by (auto simp: readReadme_def Let_def)

lemma or_else_None: "or_else None b = b"
  by (simp add: or_else_def)

lemma join_empty_sep: "join [] xs = concat xs"
proof (induction xs)
  case Nil
  show ?case by simp
next
  case (Cons p ps)
  then show ?case by (cases ps) auto
qed

lemma defaultDocNumber_initials:
  "defaultDocNumber name start
     = initials (split (CHR ''-'') name) @ ''-'' @ takeWhile (\<lambda>c. c \<noteq> CHR ''-'') start"
  by (simp add: defaultDocNumber_def initials_def join_empty_sep firstField_def)

lemma initials_capitalize: "initials (map capitalize ws) = initials ws"
proof -
  have "toUpperCase (take 1 (capitalize x)) = toUpperCase (take 1 x)" for x
    by (cases x) (simp_all add: capitalize_def toUpperCase_def toUpperCase_char_idem)
  then show ?thesis by (simp add: initials_def o_def)
qed

lemma capitalize_no_space:
  assumes "\<forall>c \<in> set x. isWord c"
  shows "CHR '' '' \<notin> set (capitalize x)"
proof -
  have "\<forall>d \<in> set (capitalize x). isWord d"
    using assms by (cases x) (simp_all add: capitalize_def isWord_toUpperCase_char)
  then show ?thesis using isWord_not_space by blast
qed

lemma words_of_name:
  assumes "list_all (\<lambda>c. isWord c \<or> c = CHR ''-'') name" and "x \<in> set (split (CHR ''-'') name)"
  shows "\<forall>c \<in> set x. isWord c"
  using split_parts [OF assms(2)] assms(1) by (auto simp: list_all_iff)

lemma split_title_words:
  assumes "list_all (\<lambda>c. isWord c \<or> c = CHR ''-'') name"
  shows "split (CHR '' '') (join '' '' (map capitalize (split (CHR ''-'') name)))
         = map capitalize (split (CHR ''-'') name)"
proof (rule split_join)
  show "map capitalize (split (CHR ''-'') name) \<noteq> []"
    by (simp add: split_not_Nil)
  show "\<forall>x \<in> set (map capitalize (split (CHR ''-'') name)). CHR '' '' \<notin> set x"
    using words_of_name [OF assms] capitalize_no_space by auto
qed

lemma split_replace_sep:
  "b \<notin> set s \<Longrightarrow> split b (map (\<lambda>c. if c = a then b else c) s) = split a s"
  by (induction s) auto

lemma spec_title_no_underscore:
  assumes "list_all (\<lambda>c. isWord c \<or> c = CHR ''-'') name" and "CHR ''_'' \<notin> set name"
  shows "spec_title name = join '' '' (map capitalize (split (CHR ''-'') name))"
proof -
  have m: "map (\<lambda>c. if c = CHR ''-'' \<or> c = CHR ''_'' then CHR '' '' else c) name
        = map (\<lambda>c. if c = CHR ''-'' then CHR '' '' else c) name"
    using assms(2) by (intro map_cong) auto
  have "CHR '' '' \<notin> set name"
    using assms(1) isWord_not_space by (auto simp: list_all_iff)
  then have "split (CHR '' '') (map (\<lambda>c. if c = CHR ''-'' then CHR '' '' else c) name)
             = split (CHR ''-'') name"
    by (rule split_replace_sep)
  then show ?thesis
    unfolding spec_title_def m by (rule arg_cong)
qed

lemma underscore_run:
  "sync_data world_underscore
     = (fst (sync_data world_underscore), Inr (projr (snd (sync_data world_underscore))))"
proof -
  have "execSync world_underscore gitLogCommand = Inr ''abc1234 first\<newline>''"
    by (simp add: world_underscore_def example_world_def exec_table_def)
  moreover have "snd (readReadme world_underscore) = Inr emptyConfig"
    by (simp add: readReadme_def world_underscore_def example_world_def)
  ultimately show ?thesis using sync_data_total by fastforce
qed

lemma underscore_repoInfo: "repoInfo world_underscore = ([], ''my_repo'')"
  by (simp add: repoInfo_def world_underscore_def example_world_def exec_table_def basename_def
      gitLogCommand_def firstDateCommand_def lastDateCommand_def)

lemma underscore_dates: "commitDates world_underscore = (''2025-11-30'', ''2025-12-02'')"
  by (simp add: commitDates_def world_underscore_def example_world_def exec_table_def
      gitLogCommand_def firstDateCommand_def lastDateCommand_def firstField_def trim_def
      trimStart_def trimEnd_def isSpace_def)

lemma underscore_defaults:
  "defaultTitle ''my_repo'' = ''My_repo''"
  "defaultDocNumber ''my_repo'' ''2025-11-30'' = ''M-2025''"
  "spec_title ''my_repo'' = ''My Repo''"
  "spec_docNumber ''my_repo'' ''2025-11-30'' = ''MR-2025''"
  by code_simp+

lemma dashed_run:
  "sync_data world_dashed
     = (fst (sync_data world_dashed), Inr (projr (snd (sync_data world_dashed))))"
proof -
  have "execSync world_dashed gitLogCommand = Inr ''abc1234 first\<newline>''"
    by (simp add: world_dashed_def example_world_def exec_table_def)
  moreover have "snd (readReadme world_dashed) = Inr emptyConfig"
    by (simp add: readReadme_def world_dashed_def example_world_def)
  ultimately show ?thesis using sync_data_total by fastforce
qed

lemma dashed_repoInfo: "repoInfo world_dashed = ([], ''my-repo'')"
  by (simp add: repoInfo_def world_dashed_def example_world_def exec_table_def basename_def
      gitLogCommand_def firstDateCommand_def lastDateCommand_def)

lemma dashed_words:
  "join '' '' (map capitalize (split (CHR ''-'') ''my-repo'')) = ''My Repo''"
  "initials (split (CHR '' '') ''My Repo'') @ ''-'' @ takeWhile (\<lambda>c. c \<noteq> CHR ''-'') ''2025-11-30''
     = ''MR-2025''"
  "list_all (\<lambda>c. isWord c \<or> c = CHR ''-'') ''my-repo''"
  by code_simp+

text \<open>The year of a date that starts with digits and a dash.\<close>

lemma takeWhile_stop: "\<forall>c \<in> set y. P c \<Longrightarrow> \<not> P d \<Longrightarrow> takeWhile P (y @ d # rest) = y"
  by (induction y) auto

lemma takeWhile_through:
  "\<forall>c \<in> set y. P c \<Longrightarrow> P d \<Longrightarrow> takeWhile P (y @ d # rest) = y @ d # takeWhile P rest"
  by (induction y) auto

lemma isDigit_facts:
  assumes "isDigit c"
  shows "c \<noteq> CHR '' ''" and "c \<noteq> CHR ''-''" and "c \<noteq> CHR ''T''" and "\<not> isSpace c"
  using assms by (auto simp: isDigit_def isSpace_def)

lemma year_of_git_date:
  assumes "list_all isDigit y"
  shows "takeWhile (\<lambda>c. c \<noteq> CHR ''-'') (takeWhile (\<lambda>c. c \<noteq> CHR '' '') (trim (y @ CHR ''-'' # rest))) = y"
proof -
  from assms have d: "\<forall>c \<in> set y. c \<noteq> CHR '' '' \<and> c \<noteq> CHR ''-'' \<and> \<not> isSpace c"
    using isDigit_facts by (auto simp: list_all_iff)
  have "\<not> isSpace (hd (y @ CHR ''-'' # rest))"
    using d by (cases y) (simp_all add: isSpace_def)
  then have start: "trimStart (y @ CHR ''-'' # rest) = y @ CHR ''-'' # rest"
    by (cases y) (simp_all add: trimStart_def)
  have "trimEnd ((y @ ''-'') @ rest) = (y @ ''-'') @ trimEnd rest"
    by (rule trimEnd_append_nonspace) (simp_all add: isSpace_def)
  then have tr: "trim (y @ CHR ''-'' # rest) = y @ CHR ''-'' # trimEnd rest"
    by (simp add: trim_def start)
  have "takeWhile (\<lambda>c. c \<noteq> CHR '' '') (y @ CHR ''-'' # trimEnd rest)
        = y @ CHR ''-'' # takeWhile (\<lambda>c. c \<noteq> CHR '' '') (trimEnd rest)"
    using d by (intro takeWhile_through) simp_all
  moreover have "takeWhile (\<lambda>c. c \<noteq> CHR ''-'') (y @ CHR ''-'' # takeWhile (\<lambda>c. c \<noteq> CHR '' '') (trimEnd rest)) = y"
    using d by (intro takeWhile_stop) simp_all
  ultimately show ?thesis by (simp only: tr)
qed

lemma year_of_clock_date:
  assumes "list_all isDigit y"
  shows "takeWhile (\<lambda>c. c \<noteq> CHR ''-'') (takeWhile (\<lambda>c. c \<noteq> CHR ''T'') (y @ CHR ''-'' # rest)) = y"
proof -
  from assms have d: "\<forall>c \<in> set y. c \<noteq> CHR ''T'' \<and> c \<noteq> CHR ''-''"
    using isDigit_facts by (auto simp: list_all_iff)
  have "takeWhile (\<lambda>c. c \<noteq> CHR ''T'') (y @ CHR ''-'' # rest)
        = y @ CHR ''-'' # takeWhile (\<lambda>c. c \<noteq> CHR ''T'') rest"
    using d by (intro takeWhile_through) simp_all
  moreover have "takeWhile (\<lambda>c. c \<noteq> CHR ''-'') (y @ CHR ''-'' # takeWhile (\<lambda>c. c \<noteq> CHR ''T'') rest) = y"
    using d by (intro takeWhile_stop) simp_all
  ultimately show ?thesis by (simp only:)
qed

lemma startDate_of_run:
  assumes "sync_data w = (ops, Inr pd)"
  shows "startDate pd = (case execSync w firstDateCommand of
                           Inr out \<Rightarrow> takeWhile (\<lambda>c. c \<noteq> CHR '' '') (trim out)
                         | Inl e \<Rightarrow> takeWhile (\<lambda>c. c \<noteq> CHR ''T'') (nowISO w))"
  by (simp add: sync_data_fields(3) [OF assms] commitDates_def firstField_def Let_def split: sum.splits)

lemma two_commits_repoInfo: "repoInfo world_two_commits = ([], ''my-repo'')"
  by (simp add: repoInfo_def world_two_commits_def example_world_def exec_table_def basename_def
      gitLogCommand_def gitShowCommand_def)

lemma two_commits_no_date:
  "execSync world_two_commits firstDateCommand = Inl (ExecError 128)"
  by (simp add: world_two_commits_def example_world_def exec_table_def firstDateCommand_def
      gitLogCommand_def gitShowCommand_def)

lemma clock_words:
  "initials (split (CHR '' '') ''My Repo'') @ ''-'' @ ''2026'' = ''MR-2026''"
  "initials (split (CHR '' '') ''My Repo'') @ ''-'' @ ''2025'' = ''MR-2025''"
  by code_simp+

lemma year_digits: "list_all isDigit ''2026''" "list_all isDigit ''2025''"
  by code_simp+

section \<open>The title of a step\<close>

lemma bare_hash_run:
  "sync_data world_bare_hash
     = (fst (sync_data world_bare_hash), Inr (projr (snd (sync_data world_bare_hash))))"
proof -
  have "execSync world_bare_hash gitLogCommand = Inr ''abc1234 first\<newline>''"
    by (simp add: world_bare_hash_def example_world_def exec_table_def)
  moreover have "snd (readReadme world_bare_hash) = Inr emptyConfig"
    by (simp add: readReadme_def world_bare_hash_def example_world_def)
  ultimately show ?thesis using sync_data_total by fastforce
qed

lemma bare_hash_step_md:
  "execSync world_bare_hash (gitShowCommand ''abc1234'' ''STEP.md'') = Inr ''#\<newline>foo\<newline>''"
  by (simp add: world_bare_hash_def example_world_def exec_table_def gitShowCommand_def
      gitLogCommand_def)

lemma matchH1_bare_hash: "matchH1 ''#\<newline>foo\<newline>'' = Some ''foo''"
  by (simp add: matchH1_def h1_at_def isSpace_def isLineTerminator_def)

text \<open>
  Where no line of the text is a heading without text, the regular expression of the title
  reads the text by lines: its first group is the text of the first H1-style heading
  line, and there is no match when no line is one.  So the title of a step is the text of
  the first H1-style heading line of its \<open>STEP.md\<close>, and the commit message when it has
  none.
\<close>

lemma hd_linesOf: "hd (linesOf cs) = takeWhile (\<lambda>c. \<not> isLineTerminator c) cs"
  by (induction cs) (simp_all add: linesOf_Cons del: linesOf.simps(2))

lemma takeWhile_dropWhile_Nil: "takeWhile P (dropWhile P xs) = []"
  by (induction xs) auto

lemma h1_at_heading:
  assumes ln: "ln = takeWhile (\<lambda>c. \<not> isLineTerminator c) cs"
    and sp: "ln \<noteq> []" "isSpace (hd ln)" and nws: "\<not> list_all isSpace ln"
  shows "h1_at cs = Some (dropWhile isSpace ln)"
proof -
  let ?rest = "dropWhile (\<lambda>c. \<not> isLineTerminator c) cs"
  let ?k = "length (takeWhile isSpace ln)"
  have cs: "cs = ln @ ?rest" by (simp add: ln)
  from nws obtain x where ex: "x \<in> set ln" "\<not> isSpace x" by (auto simp: list_all_iff)
  have "takeWhile isSpace (ln @ ?rest) = takeWhile isSpace ln"
    using ex by (rule takeWhile_append1)
  then have tw: "takeWhile isSpace cs = takeWhile isSpace ln"
    using cs by simp
  have kpos: "0 < ?k" using sp by (cases ln) auto
  then obtain j where j: "?k = Suc j" by (cases ?k) auto
  have kle: "?k \<le> length ln" by (rule length_takeWhile_le)
  have "drop ?k (ln @ ?rest) = drop ?k ln @ ?rest"
    using kle by simp
  moreover have "drop ?k ln = dropWhile isSpace ln"
    by (rule dropWhile_eq_drop [symmetric])
  ultimately have dr: "drop ?k cs = dropWhile isSpace ln @ ?rest"
    using cs by simp
  have nolt: "\<not> isLineTerminator y" if "y \<in> set (dropWhile isSpace ln)" for y
  proof -
    from that have "y \<in> set ln" by (rule set_dropWhileD)
    then show ?thesis unfolding ln by (auto dest: set_takeWhileD)
  qed
  have g: "takeWhile (\<lambda>c. \<not> isLineTerminator c) (drop ?k cs) = dropWhile isSpace ln"
    unfolding dr using nolt by (simp add: takeWhile_dropWhile_Nil)
  have ne: "dropWhile isSpace ln \<noteq> []"
    using ex by auto
  have "takeWhile (\<lambda>c. \<not> isLineTerminator c) (drop (Suc j) cs) = dropWhile isSpace ln"
    using g by (simp only: j)
  with ne have "h1_backtrack cs (Suc j) = Some (dropWhile isSpace ln)"
    by (simp add: Let_def)
  then show ?thesis
    by (simp add: h1_at_def tw j)
qed

lemma h1_at_no_space:
  assumes "cs \<noteq> []" and "\<not> isSpace (hd cs)"
  shows "h1_at cs = None"
  using assms by (cases cs) (simp_all add: h1_at_def)

lemma isLineTerminator_isSpace: "isLineTerminator c \<Longrightarrow> isSpace c"
  by (auto simp: isLineTerminator_def isSpace_def)

lemma isH1Line_hash:
  assumes "\<not> isEmptyHeading (CHR ''#'' # ln)"
  shows "isH1Line (CHR ''#'' # ln) \<longleftrightarrow> ln \<noteq> [] \<and> isSpace (hd ln)"
proof (cases ln)
  case Nil
  then show ?thesis by (simp add: isH1Line_def)
next
  case (Cons d rest)
  with assms have "isSpace d \<Longrightarrow> rest \<noteq> []"
    by (auto simp: isEmptyHeading_def)
  with Cons show ?thesis by (auto simp: isH1Line_def)
qed

lemma isH1Line_not_hash: "c \<noteq> CHR ''#'' \<Longrightarrow> \<not> isH1Line (c # l)"
  by (auto simp: isH1Line_def split: list.splits)

lemma isH1Line_Nil: "\<not> isH1Line []"
  by (simp add: isH1Line_def)

lemma matchH1_from_lines:
  assumes "\<forall>l \<in> set (if bol then linesOf s else tl (linesOf s)). \<not> isEmptyHeading l"
  shows "matchH1_from bol s
         = map_option headingText (find isH1Line (if bol then linesOf s else tl (linesOf s)))"
  using assms
proof (induction s arbitrary: bol)
  case Nil
  show ?case by (simp add: isH1Line_Nil)
next
  case (Cons c cs)
  let ?L = "linesOf cs"
  let ?ln = "takeWhile (\<lambda>c. \<not> isLineTerminator c) cs"
  have L: "?L = hd ?L # tl ?L" using linesOf_not_Nil [of cs] by simp
  show ?case
  proof (cases "bol \<and> c = CHR ''#''")
    case True
    then have bol: bol and c: "c = CHR ''#''" by simp_all
    have nlt: "\<not> isLineTerminator c" by (simp add: c isLineTerminator_def)
    have lines: "linesOf (c # cs) = (CHR ''#'' # ?ln) # tl ?L"
      using nlt by (simp add: linesOf_Cons hd_linesOf c del: linesOf.simps(2))
    from Cons.prems bol lines have neh: "\<not> isEmptyHeading (CHR ''#'' # ?ln)"
      and rest: "\<forall>l \<in> set (tl ?L). \<not> isEmptyHeading l" by simp_all
    show ?thesis
    proof (cases "isH1Line (CHR ''#'' # ?ln)")
      case h1: True
      then have sp: "?ln \<noteq> []" "isSpace (hd ?ln)"
        using isH1Line_hash [OF neh] by simp_all
      from neh have nws: "\<not> list_all isSpace ?ln" by (simp add: isEmptyHeading_def)
      have "h1_at cs = Some (dropWhile isSpace ?ln)"
        by (rule h1_at_heading [OF refl sp nws])
      with bol c h1 lines show ?thesis
        by (simp add: headingText_def del: linesOf.simps(2))
    next
      case h1: False
      from neh have "?ln \<noteq> []" by (auto simp: isEmptyHeading_def)
      with h1 have ns: "\<not> isSpace (hd ?ln)"
        using isH1Line_hash [OF neh] by simp
      from \<open>?ln \<noteq> []\<close> have cne: "cs \<noteq> []" by auto
      have "hd ?ln = hd cs" using \<open>?ln \<noteq> []\<close> by (cases cs) (auto split: if_splits)
      with ns cne have "h1_at cs = None" by (simp add: h1_at_no_space)
      moreover have "matchH1_from False cs = map_option headingText (find isH1Line (tl ?L))"
        using Cons.IH [of False] rest by simp
      ultimately show ?thesis
        using bol c h1 lines by (simp del: linesOf.simps(2))
    qed
  next
    case False
    then have step: "matchH1_from bol (c # cs) = matchH1_from (isLineTerminator c) cs"
      by auto
    show ?thesis
    proof (cases "isLineTerminator c")
      case True
      then have lines: "linesOf (c # cs) = [] # ?L" by simp
      have neh: "\<forall>l \<in> set ?L. \<not> isEmptyHeading l"
        using Cons.prems lines by (cases bol) (simp_all del: linesOf.simps(2))
      have "matchH1_from True cs = map_option headingText (find isH1Line ?L)"
        using Cons.IH [of True] neh by simp
      with True step lines show ?thesis
        by (simp add: isH1Line_Nil del: linesOf.simps(2) matchH1_from.simps)
    next
      case nlt: False
      then have lines: "linesOf (c # cs) = (c # hd ?L) # tl ?L"
        by (simp add: linesOf_Cons del: linesOf.simps(2))
      have neh: "\<forall>l \<in> set (tl ?L). \<not> isEmptyHeading l"
        using Cons.prems lines by (cases bol) (simp_all del: linesOf.simps(2))
      have ih: "matchH1_from False cs = map_option headingText (find isH1Line (tl ?L))"
        using Cons.IH [of False] neh by simp
      have "\<not> isH1Line (c # hd ?L)" if bol
        using that False by (simp add: isH1Line_not_hash)
      with nlt step lines ih show ?thesis
        by (cases bol) (simp_all del: linesOf.simps(2) matchH1_from.simps)
    qed
  qed
qed

lemma matchH1_lines:
  assumes "\<forall>l \<in> set (linesOf s). \<not> isEmptyHeading l"
  shows "matchH1 s = map_option headingText (find isH1Line (linesOf s))"
  using matchH1_from_lines [of True s] assms by (simp add: matchH1_def)

lemma step_title_by_lines:
  assumes "sync_data w = (ops, Inr pd)" and "execSync w gitLogCommand = Inr logOutput"
    and "i < length (parseLog logOutput)"
    and "execSync w (gitShowCommand (hash (parseLog logOutput ! i)) ''STEP.md'') = Inr stepContent"
    and "\<forall>l \<in> set (linesOf stepContent). \<not> isEmptyHeading l"
  shows "step_title (steps pd ! i)
         = (case find isH1Line (linesOf stepContent) of
              None \<Rightarrow> message (parseLog logOutput ! i)
            | Some l \<Rightarrow> headingText l)"
proof -
  let ?c = "parseLog logOutput ! i"
  have "step_title (steps pd ! i) = snd (stepNarrative w ?c)"
    by (simp add: steps_of_run(2) [OF assms(1,2,3)] step_title_mkStep)
  also have "\<dots> = (case matchH1 stepContent of Some t \<Rightarrow> t | None \<Rightarrow> message ?c)"
    by (simp add: stepNarrative_def assms(4))
  also have "matchH1 stepContent = map_option headingText (find isH1Line (linesOf stepContent))"
    by (rule matchH1_lines [OF assms(5)])
  finally show ?thesis
    by (simp split: option.splits)
qed

section \<open>Claims\<close>

text \<open>
  C1, as the specification states it, fails for the sync script: the commit field of its
  steps is not the hash of the commit but what \<open>%h\<close> prints for it, here the first seven
  and the first eight of its forty digits.
\<close>

theorem C1_counterexample:
  "wf_repository repo_mixed
   \<and> execSync world_mixed gitLogCommand = git_log_short repo_mixed
   \<and> map step_id (steps (projr (snd (sync_data world_mixed)))) = [''0'', ''1'']
   \<and> map step_commit (steps (projr (snd (sync_data world_mixed)))) = [''abc1234'', ''def56789'']
   \<and> map full_hash (history repo_mixed)
       = [''abc1234def0123456789abcdef0123456789abcd'', ''def567890123456789abcdef0123456789abcdef'']
   \<and> map step_commit (steps (projr (snd (sync_data world_mixed)))) \<noteq> map full_hash (history repo_mixed)"
proof -
  have up: "[0..<2] = [0, Suc 0]" by (simp add: upt_rec)
  have len: "length (history repo_mixed) = 2" by (simp add: repo_mixed_def)
  note f = sync_data_steps_of_repository [OF wf_repo_mixed mixed_short mixed_run]
  have "map step_id (steps (projr (snd (sync_data world_mixed)))) = [''0'', ''1'']"
    by (simp add: f(1) len up toString_small)
  moreover have "map step_commit (steps (projr (snd (sync_data world_mixed)))) = [''abc1234'', ''def56789'']"
    by (simp add: f(3)) (simp add: repo_mixed_def short_hash_def)
  moreover have "map full_hash (history repo_mixed)
       = [''abc1234def0123456789abcdef0123456789abcd'', ''def567890123456789abcdef0123456789abcdef'']"
    by (simp add: repo_mixed_def)
  ultimately show ?thesis by (simp add: wf_repo_mixed mixed_short)
qed

text \<open>
  C1, amended.  For a well-formed repository of N commits whose log git prints.  The sync
  script (per-commit \<open>STEP.md\<close>) produces a step list exactly when N is not zero and the
  README, if there is one, can be read (otherwise the run stops with an error); the list
  has exactly N steps, in the order of the commits, oldest first: the i-th step's id and
  slug are the decimal digits of i, counted from zero, and its commit field is the
  abbreviated hash \<open>%h\<close> printed for the i-th commit, the first \<open>abbrev\<close> digits of its
  hash, which is the hash itself only where git abbreviates to 40 digits.  \<open>getSteps\<close>
  (combined \<open>STEPS.md\<close>) produces exactly min(N, number of H1 sections) steps, in the
  same order and with the same ids and slugs, and the commit field of its i-th step is the
  full hash of the i-th commit.
\<close>

theorem C1_one_step_per_commit_hash_as_printed:
  assumes "wf_repository r"
  shows "(execSync w gitLogCommand = git_log_short r \<longrightarrow>
            ((\<exists>pd. snd (sync_data w) = Inr pd)
               \<longleftrightarrow> history r \<noteq> [] \<and> (\<exists>cfg. snd (readReadme w) = Inr cfg))
            \<and> (\<forall>pd. snd (sync_data w) = Inr pd \<longrightarrow>
                   length (steps pd) = length (history r)
                 \<and> map step_id (steps pd) = map toString [0..<length (history r)]
                 \<and> map step_slug (steps pd) = map toString [0..<length (history r)]
                 \<and> map step_commit (steps pd) = map (short_hash r) (history r)
                 \<and> (\<forall>i < length (history r).
                        step_commit (steps pd ! i)
                          = take (abbrev r (history r ! i)) (full_hash (history r ! i))
                      \<and> (step_commit (steps pd ! i) = full_hash (history r ! i)
                            \<longleftrightarrow> abbrev r (history r ! i) = 40))))
       \<and> (execSync w gitLogFullCommand = git_log_full r \<longrightarrow>
            length (getSteps w) = min (length (history r)) (sectionCount w)
            \<and> map st_id (getSteps w) = map toString [0..<length (getSteps w)]
            \<and> map st_slug (getSteps w) = map toString [0..<length (getSteps w)]
            \<and> map st_commit (getSteps w) = take (length (getSteps w)) (map full_hash (history r)))"
proof (rule conjI; rule impI)
  assume log: "execSync w gitLogCommand = git_log_short r"
  have iff: "(\<exists>pd. snd (sync_data w) = Inr pd)
               \<longleftrightarrow> history r \<noteq> [] \<and> (\<exists>cfg. snd (readReadme w) = Inr cfg)"
    unfolding sync_data_completes_iff log
    by (auto simp: git_log_short_def)
  have all: "length (steps pd) = length (history r)
                 \<and> map step_id (steps pd) = map toString [0..<length (history r)]
                 \<and> map step_slug (steps pd) = map toString [0..<length (history r)]
                 \<and> map step_commit (steps pd) = map (short_hash r) (history r)
                 \<and> (\<forall>i < length (history r).
                        step_commit (steps pd ! i)
                          = take (abbrev r (history r ! i)) (full_hash (history r ! i))
                      \<and> (step_commit (steps pd ! i) = full_hash (history r ! i)
                            \<longleftrightarrow> abbrev r (history r ! i) = 40))"
    if "snd (sync_data w) = Inr pd" for pd
  proof -
    from that have run: "sync_data w = (fst (sync_data w), Inr pd)"
      by (metis prod.collapse)
    note f = sync_data_steps_of_repository [OF assms log run]
    have len: "length (steps pd) = length (history r)"
      using arg_cong [OF f(3), of length] by simp
    have each: "step_commit (steps pd ! i)
                  = take (abbrev r (history r ! i)) (full_hash (history r ! i))
                \<and> (step_commit (steps pd ! i) = full_hash (history r ! i)
                      \<longleftrightarrow> abbrev r (history r ! i) = 40)"
      if i: "i < length (history r)" for i
    proof -
      let ?c = "history r ! i"
      from i have mem: "?c \<in> set (history r)" by simp
      with assms have wfc: "wf_commit ?c" and ab: "abbrev r ?c \<le> 40"
        by (simp_all add: wf_repository_def list_all_iff)
      have "map step_commit (steps pd) ! i = map (short_hash r) (history r) ! i"
        by (simp only: f(3))
      with i len have sc: "step_commit (steps pd ! i) = short_hash r ?c" by simp
      from short_hash_facts(2) [OF wfc, of r] ab
      show ?thesis by (auto simp: sc short_hash_def)
    qed
    from len f each show ?thesis by blast
  qed
  from iff all
  show "((\<exists>pd. snd (sync_data w) = Inr pd)
               \<longleftrightarrow> history r \<noteq> [] \<and> (\<exists>cfg. snd (readReadme w) = Inr cfg))
            \<and> (\<forall>pd. snd (sync_data w) = Inr pd \<longrightarrow>
                   length (steps pd) = length (history r)
                 \<and> map step_id (steps pd) = map toString [0..<length (history r)]
                 \<and> map step_slug (steps pd) = map toString [0..<length (history r)]
                 \<and> map step_commit (steps pd) = map (short_hash r) (history r)
                 \<and> (\<forall>i < length (history r).
                        step_commit (steps pd ! i)
                          = take (abbrev r (history r ! i)) (full_hash (history r ! i))
                      \<and> (step_commit (steps pd ! i) = full_hash (history r ! i)
                            \<longleftrightarrow> abbrev r (history r ! i) = 40)))"
    by blast
next
  assume "execSync w gitLogFullCommand = git_log_full r"
  from getSteps_of_repository [OF assms this]
  show "length (getSteps w) = min (length (history r)) (sectionCount w)
            \<and> map st_id (getSteps w) = map toString [0..<length (getSteps w)]
            \<and> map st_slug (getSteps w) = map toString [0..<length (getSteps w)]
            \<and> map st_commit (getSteps w) = take (length (getSteps w)) (map full_hash (history r))" .
qed

theorem C1_witness:
  "(\<exists>pd. snd (sync_data world_mixed) = Inr pd)
   \<and> map step_id (steps (projr (snd (sync_data world_mixed)))) = [''0'', ''1'']
   \<and> map step_slug (steps (projr (snd (sync_data world_mixed)))) = [''0'', ''1'']
   \<and> map step_commit (steps (projr (snd (sync_data world_mixed)))) = [''abc1234'', ''def56789'']
   \<and> map st_id (getSteps world_mixed) = [''0'', ''1'']
   \<and> map st_commit (getSteps world_mixed)
       = [''abc1234def0123456789abcdef0123456789abcd'', ''def567890123456789abcdef0123456789abcdef'']"
proof -
  have ne: "history repo_mixed \<noteq> []" by (simp add: repo_mixed_def)
  have len: "length (history repo_mixed) = 2" by (simp add: repo_mixed_def)
  have up: "[0..<2] = [0, Suc 0]" by (simp add: upt_rec)
  have run: "snd (sync_data world_mixed) = Inr (projr (snd (sync_data world_mixed)))"
    using mixed_run by (metis snd_conv)
  have sh: "map (short_hash repo_mixed) (history repo_mixed) = [''abc1234'', ''def56789'']"
    by (simp add: repo_mixed_def short_hash_def)
  have fh: "map full_hash (history repo_mixed)
       = [''abc1234def0123456789abcdef0123456789abcd'', ''def567890123456789abcdef0123456789abcdef'']"
    by (simp add: repo_mixed_def)
  from C1_one_step_per_commit_hash_as_printed [OF wf_repo_mixed, of world_mixed]
       mixed_short mixed_full mixed_readme ne run
  show ?thesis
    by (auto simp: len mixed_sections up toString_small sh fh)
qed

text \<open>
  C2, as the specification states it, fails: the sync script asks git for \<open>%h\<close>, so
  the commit field of its steps and manifest entries is the abbreviated hash, here seven
  digits of forty.
\<close>

theorem C2_counterexample:
  "wf_repository repo_two
   \<and> execSync world_repo_two gitLogCommand = git_log_short repo_two
   \<and> map step_commit (steps (projr (snd (sync_data world_repo_two)))) = [''abc1234'', ''def5678'']
   \<and> map full_hash (history repo_two)
       = [''abc1234def0123456789abcdef0123456789abcd'', ''def56780123456789abcdef0123456789abcdef0'']"
  using sync_data_steps_of_repository(3) [OF wf_repo_two repo_two_short repo_two_run]
  by (simp add: wf_repo_two repo_two_short) (simp add: repo_two_def short_hash_def)

text \<open>
  C2, amended.  The commit records of \<open>getSteps\<close> (\<open>--no-abbrev-commit\<close>) carry the
  full 40-digit hash.  The commit records of the sync script, and hence the commit field
  of every step and manifest entry it writes, carry the hash as \<open>%h\<close> prints it: the first
  \<open>abbrev\<close> digits of the full hash, which is the full hash only when git abbreviates to
  40 digits (the number of digits may differ from commit to commit).
\<close>

theorem C2_hash_as_git_prints_it:
  assumes "wf_repository r"
  shows "(\<forall>ops pd. execSync w gitLogCommand = git_log_short r \<and> sync_data w = (ops, Inr pd) \<longrightarrow>
            map hash (parseLog (projr (execSync w gitLogCommand))) = map (short_hash r) (history r)
            \<and> map step_commit (steps pd) = map (short_hash r) (history r))
       \<and> (\<forall>c \<in> set (history r).
             short_hash r c = take (abbrev r c) (full_hash c)
             \<and> length (short_hash r c) = abbrev r c
             \<and> (short_hash r c = full_hash c \<longleftrightarrow> abbrev r c = 40))
       \<and> (execSync w gitLogFullCommand = git_log_full r \<longrightarrow>
             map st_commit (getSteps w) = take (length (getSteps w)) (map full_hash (history r))
             \<and> (\<forall>s \<in> set (getSteps w). length (st_commit s) = 40))"
proof -
  have wfc: "wf_commit c" if "c \<in> set (history r)" for c
    using assms that by (simp add: wf_repository_def list_all_iff)
  have ab: "4 \<le> abbrev r c \<and> abbrev r c \<le> 40" if "c \<in> set (history r)" for c
    using assms that by (simp add: wf_repository_def list_all_iff)
  have A: "map hash (parseLog (projr (execSync w gitLogCommand))) = map (short_hash r) (history r)
            \<and> map step_commit (steps pd) = map (short_hash r) (history r)"
    if "execSync w gitLogCommand = git_log_short r \<and> sync_data w = (ops, Inr pd)" for ops pd
  proof -
    from that have log: "execSync w gitLogCommand = git_log_short r"
      and run: "sync_data w = (ops, Inr pd)" by simp_all
    have ne: "history r \<noteq> []"
    proof
      assume "history r = []"
      with log have "execSync w gitLogCommand = Inl (ExecError 128)"
        by (simp add: git_log_short_def)
      with run show False
        by (auto simp: sync_data_def split: prod.splits sum.splits)
    qed
    have "projr (execSync w gitLogCommand)
          = concat (map (\<lambda>c. short_hash r c @ '' '' @ subject c @ ''\<newline>'') (history r))"
      unfolding log using ne by (simp add: git_log_short_def)
    then have "map hash (parseLog (projr (execSync w gitLogCommand))) = map (short_hash r) (history r)"
      by (simp only: parseLog_git_log_short [OF assms]) (simp add: o_def)
    with sync_data_steps_of_repository(3) [OF assms log run] show ?thesis by simp
  qed
  have B: "short_hash r c = take (abbrev r c) (full_hash c)
             \<and> length (short_hash r c) = abbrev r c
             \<and> (short_hash r c = full_hash c \<longleftrightarrow> abbrev r c = 40)"
    if "c \<in> set (history r)" for c
    using short_hash_facts [OF wfc [OF that], of r] ab [OF that]
    by (auto simp: short_hash_def)
  have C: "map st_commit (getSteps w) = take (length (getSteps w)) (map full_hash (history r))
             \<and> (\<forall>s \<in> set (getSteps w). length (st_commit s) = 40)"
    if "execSync w gitLogFullCommand = git_log_full r"
  proof -
    from getSteps_of_repository [OF assms that]
    have eq: "map st_commit (getSteps w) = take (length (getSteps w)) (map full_hash (history r))"
      by blast
    have "length (st_commit s) = 40" if "s \<in> set (getSteps w)" for s
    proof -
      from that have "st_commit s \<in> set (map st_commit (getSteps w))" by simp
      then have "st_commit s \<in> set (map full_hash (history r))"
        unfolding eq by (rule in_set_takeD)
      then obtain c where "c \<in> set (history r)" "st_commit s = full_hash c" by auto
      with wfc show ?thesis by (simp add: wf_commit_def)
    qed
    with eq show ?thesis by blast
  qed
  from A B C show ?thesis by blast
qed

theorem C2_witness:
  "map step_commit (steps (projr (snd (sync_data world_repo_two)))) = [''abc1234'', ''def5678'']
   \<and> length (short_hash repo_two (hd (history repo_two))) = 7
   \<and> map st_commit (getSteps world_repo_two) = [''abc1234def0123456789abcdef0123456789abcd'']
   \<and> map (\<lambda>s. length (st_commit s)) (getSteps world_repo_two) = [40]"
proof -
  have n: "length (getSteps world_repo_two) = 1"
    using getSteps_of_repository [OF wf_repo_two repo_two_full]
    by (simp add: repo_two_sections repo_two_def)
  from C2_hash_as_git_prints_it [OF wf_repo_two, of world_repo_two]
       repo_two_short repo_two_full repo_two_run
  show ?thesis
    by (auto simp: n repo_two_def short_hash_def)
qed

text \<open>
  C3.  When the blob of a path at a commit holds a null byte, \<open>getFileContent\<close> returns
  \<open>null\<close>, never a text; \<open>getCommitFiles\<close> lists the path as a node marked binary; and
  the diff view calls the diff library for no file pair of which one side is marked
  binary: in diff mode it shows "Binary file diff not supported" instead.
\<close>

theorem C3_binary_never_text_never_diffed:
  assumes "execSyncBuffer w (gitShowCommand c p) = Inr buf" and "0 \<in> set buf"
  shows "getFileContent w c p = Inr None
    \<and> (\<forall>out. execSync w (lsTreeCommand c) = Inr out \<and> p \<in> set (filterBoolean (split (CHR 0x0A) out)) \<longrightarrow>
          (\<exists>ns. getCommitFiles w c = Inr ns
             \<and> find (\<lambda>f. path f = p) ns = Some (binaryNode p)
             \<and> (\<forall>other m hl a b d.
                   renderPane m (Some p) hl ns other \<noteq> DiffOf a b d
                   \<and> renderPane m (Some p) hl other ns \<noteq> DiffOf a b d)
             \<and> (\<forall>other. renderPane Diff (Some p) True ns other = BinaryDiffNotSupported
                        \<and> renderPane Diff (Some p) True other ns = BinaryDiffNotSupported)))
    \<and> (\<forall>files prevFiles sel.
          isBinaryNode (find (\<lambda>f. path f = sel) files) \<or> isBinaryNode (find (\<lambda>f. path f = sel) prevFiles) \<longrightarrow>
            (\<forall>m hl a b d. renderPane m (Some sel) hl files prevFiles \<noteq> DiffOf a b d)
            \<and> (sel \<noteq> [] \<longrightarrow> renderPane Diff (Some sel) True files prevFiles = BinaryDiffNotSupported))"
proof (intro conjI allI impI)
  show "getFileContent w c p = Inr None"
    using assms by (simp add: getFileContent_eq)
next
  fix out
  assume ls: "execSync w (lsTreeCommand c) = Inr out \<and> p \<in> set (filterBoolean (split (CHR 0x0A) out))"
  then have pne: "p \<noteq> []" by (auto simp: filterBoolean_def)
  have node: "fileNodeOf w c p = Inr (binaryNode p)"
    using assms by (simp add: fileNodeOf_eq)
  from getCommitFiles_nodes [of w c out] ls node
  obtain ns where ns: "getCommitFiles w c = Inr ns" "find (\<lambda>f. path f = p) ns = Some (binaryNode p)"
    by blast
  have bin: "isBinaryNode (find (\<lambda>f. path f = p) ns)"
    by (simp add: ns(2) isBinaryNode_binaryNode)
  show "\<exists>ns. getCommitFiles w c = Inr ns
             \<and> find (\<lambda>f. path f = p) ns = Some (binaryNode p)
             \<and> (\<forall>other m hl a b d.
                   renderPane m (Some p) hl ns other \<noteq> DiffOf a b d
                   \<and> renderPane m (Some p) hl other ns \<noteq> DiffOf a b d)
             \<and> (\<forall>other. renderPane Diff (Some p) True ns other = BinaryDiffNotSupported
                        \<and> renderPane Diff (Some p) True other ns = BinaryDiffNotSupported)"
    using ns bin pne renderPane_binary_diff [of p ns] renderPane_binary_diff [of p _ ns]
    by (intro exI [of _ ns]) blast
next
  fix files prevFiles :: "FileNode list" and sel :: string and m hl a b d
  assume "isBinaryNode (find (\<lambda>f. path f = sel) files) \<or> isBinaryNode (find (\<lambda>f. path f = sel) prevFiles)"
  then show "renderPane m (Some sel) hl files prevFiles \<noteq> DiffOf a b d"
    by (rule renderPane_binary_diff(1))
next
  fix files prevFiles :: "FileNode list" and sel :: string
  assume "isBinaryNode (find (\<lambda>f. path f = sel) files) \<or> isBinaryNode (find (\<lambda>f. path f = sel) prevFiles)"
    and "sel \<noteq> []"
  then show "renderPane Diff (Some sel) True files prevFiles = BinaryDiffNotSupported"
    by (rule renderPane_binary_diff(2))
qed

theorem C3_witness:
  "getFileContent world_blobs ''abc1234'' ''logo.png'' = Inr None
   \<and> renderPane Diff (Some ''logo.png'') True (projr (getCommitFiles world_blobs ''abc1234'')) []
       = BinaryDiffNotSupported"
proof -
  have nul: "(0 :: 8 word) \<in> set [137, 80, 0, 71]" by simp
  have listed: "''logo.png'' \<in> set (filterBoolean (split (CHR 0x0A) ''a.txt\<newline>gone.txt\<newline>logo.png\<newline>''))"
    by (simp add: filterBoolean_def)
  from C3_binary_never_text_never_diffed [OF world_blobs_logo nul] world_blobs_lsTree listed
  show ?thesis by fastforce
qed

text \<open>
  C4, as the specification states it, fails: the sync script empties the steps directory
  and writes \<open>docs/readme.md\<close> before it reads the log.  In a repository without commits
  whose working tree holds a README, the run ends with the error of \<open>git log\<close> after
  these effects.
\<close>

theorem C4_counterexample:
  "history repo_empty = []
   \<and> execSync world_no_commits gitLogCommand = git_log_short repo_empty
   \<and> sync_data world_no_commits
       = ([MkdirSync ''/site/src/content/steps'', MkdirSync ''/site/src/content/docs'',
           WriteFileSync ''/site/src/content/docs/readme.md'' ''Hello\<newline>''],
          Inl (ExecError 128))"
  by (simp add: repo_empty_def git_log_short_def no_commits_log no_commits_run)

text \<open>
  C4, amended.  When \<open>git log\<close> fails (the location is not a repository, or it has no
  commits), the sync script ends with an uncaught error and writes no step file, no output
  file and no manifest: all it has done by then is to empty and create the steps
  directory, create the docs directory and write \<open>docs/readme.md\<close> from the README, so a
  repository without commits never yields a written manifest.  \<open>getSteps\<close> reports no
  error: it returns the empty list.
\<close>

theorem C4_log_failure_stops_the_run:
  "(\<forall>e. execSync w gitLogCommand = Inl e \<or> (\<exists>r. history r = [] \<and> execSync w gitLogCommand = git_log_short r) \<longrightarrow>
      (\<exists>e'. snd (sync_data w) = Inl e')
      \<and> (\<forall>op \<in> set (fst (sync_data w)).
            op = RmSync (STEPS_DIR w) \<or> op = MkdirSync (STEPS_DIR w) \<or> op = MkdirSync (DOCS_DIR w)
            \<or> (\<exists>t. op = WriteFileSync (path_join (DOCS_DIR w) ''readme.md'') t)))
   \<and> (\<forall>e. execSync w gitLogFullCommand = Inl e \<or> (\<exists>r. history r = [] \<and> execSync w gitLogFullCommand = git_log_full r) \<longrightarrow>
        getSteps w = [])"
proof (rule conjI; rule allI; rule impI)
  fix e
  assume "execSync w gitLogCommand = Inl e \<or> (\<exists>r. history r = [] \<and> execSync w gitLogCommand = git_log_short r)"
  then obtain e0 where "execSync w gitLogCommand = Inl e0"
    by (auto simp: git_log_short_def)
  from sync_data_log_failure [OF this] obtain e'
    where run: "sync_data w = (ensureDirs w @ fst (readReadme w), Inl e')" by blast
  have "op = RmSync (STEPS_DIR w) \<or> op = MkdirSync (STEPS_DIR w) \<or> op = MkdirSync (DOCS_DIR w)
            \<or> (\<exists>t. op = WriteFileSync (path_join (DOCS_DIR w) ''readme.md'') t)"
    if "op \<in> set (fst (sync_data w))" for op
    using that ensureDirs_ops [of op w] readReadme_ops [of op w] by (auto simp: run)
  with run show "(\<exists>e'. snd (sync_data w) = Inl e')
      \<and> (\<forall>op \<in> set (fst (sync_data w)).
            op = RmSync (STEPS_DIR w) \<or> op = MkdirSync (STEPS_DIR w) \<or> op = MkdirSync (DOCS_DIR w)
            \<or> (\<exists>t. op = WriteFileSync (path_join (DOCS_DIR w) ''readme.md'') t))"
    by simp
next
  fix e
  assume "execSync w gitLogFullCommand = Inl e \<or> (\<exists>r. history r = [] \<and> execSync w gitLogFullCommand = git_log_full r)"
  then obtain e0 where "execSync w gitLogFullCommand = Inl e0"
    by (auto simp: git_log_full_def)
  then show "getSteps w = []" by (rule getSteps_log_failure)
qed

theorem C4_witness:
  "snd (sync_data world_no_commits) = Inl (ExecError 128)
   \<and> \<not> (\<exists>p pd. WriteJson p pd \<in> set (fst (sync_data world_no_commits)))
   \<and> \<not> (\<exists>t. WriteFileSync (destStepFile world_no_commits 0) t \<in> set (fst (sync_data world_no_commits)))
   \<and> getSteps world_no_commits = []"
proof -
  have log: "execSync world_no_commits gitLogCommand = git_log_short repo_empty"
    by (simp add: world_no_commits_def example_world_def exec_table_def git_log_short_def repo_empty_def)
  have logf: "execSync world_no_commits gitLogFullCommand = Inl (ExecError 128)"
    by (simp add: world_no_commits_def example_world_def exec_table_def)
  have h: "history repo_empty = []" by (simp add: repo_empty_def)
  have ne: "destStepFile world_no_commits 0 \<noteq> path_join (DOCS_DIR world_no_commits) ''readme.md''"
    by (simp add: destStepFile_def path_join_def DOCS_DIR_def STEPS_DIR_def)
  have e: "snd (sync_data world_no_commits) = Inl (ExecError 128)"
    by (simp add: no_commits_run)
  from C4_log_failure_stops_the_run [of world_no_commits] log logf h ne e
  show ?thesis by fastforce
qed

text \<open>
  C5, at the input where the code departs from it.  The \<open>STEP.md\<close> of the commit is a
  bare \<open>#\<close> line followed by the line \<open>foo\<close>: none of its lines is an H1-style heading
  line, and the commit's subject is \<open>first\<close>; yet the step's title is \<open>foo\<close>, the text of
  the line after the \<open>#\<close>, because \<open>\s+\<close> in \<open>/^#\s+(.+)$/m\<close> runs over the line
  break.  Where no line is a heading without text the code does what the claim says
  (\<open>step_title_by_lines\<close>).
\<close>

theorem C5_title_from_the_line_after_a_bare_hash:
  "execSync world_bare_hash (gitShowCommand ''abc1234'' ''STEP.md'') = Inr ''#\<newline>foo\<newline>''
   \<and> linesOf ''#\<newline>foo\<newline>'' = [''#'', ''foo'', []]
   \<and> filter isH1Line (linesOf ''#\<newline>foo\<newline>'') = []
   \<and> map step_commitMessage (steps (projr (snd (sync_data world_bare_hash)))) = [''first'']
   \<and> map step_title (steps (projr (snd (sync_data world_bare_hash)))) = [''foo'']"
proof -
  have log: "execSync world_bare_hash gitLogCommand = Inr ''abc1234 first\<newline>''"
    by (simp add: world_bare_hash_def example_world_def exec_table_def)
  have cs: "parseLog ''abc1234 first\<newline>'' = [\<lparr>hash = ''abc1234'', message = ''first''\<rparr>]"
    by (simp add: parseLog_def parseLine_def filterBoolean_def)
  have st: "steps (projr (snd (sync_data world_bare_hash)))
            = [snd (mkStep world_bare_hash \<lparr>hash = ''abc1234'', message = ''first''\<rparr> 0)]"
    by (simp add: sync_data_Inr(1) [OF bare_hash_run log] cs mapSteps_def)
  have nar: "stepNarrative world_bare_hash \<lparr>hash = ''abc1234'', message = ''first''\<rparr>
             = (''#\<newline>foo\<newline>'', ''foo'')"
    by (simp add: stepNarrative_def bare_hash_step_md matchH1_bare_hash)
  show ?thesis
    by (simp add: bare_hash_step_md isLineTerminator_def isH1Line_def st mkStep_fields
        step_title_mkStep nar)
qed

text \<open>
  C6, as the specification states it, fails: \<open>hasOutput\<close> does not depend on
  \<open>STEP.md\<close>.  The first commit here has no \<open>STEP.md\<close> and an \<open>OUTPUT.md\<close> with text, and
  its flag is true.
\<close>

theorem C6_counterexample:
  "execSync world_two_commits (gitShowCommand ''abc1234'' ''STEP.md'') = Inl (ExecError 128)
   \<and> map step_commit (steps (projr (snd (sync_data world_two_commits)))) = [''abc1234'', ''def5678'']
   \<and> map step_hasOutput (steps (projr (snd (sync_data world_two_commits)))) = [True, False]"
proof -
  note st = sync_data_Inr(1) [OF two_commits_run two_commits_log]
  have "map snd (mapSteps world_two_commits (parseLog ''abc1234 first\<newline>def5678 second\<newline>''))
        = [snd (mkStep world_two_commits \<lparr>hash = ''abc1234'', message = ''first''\<rparr> 0),
           snd (mkStep world_two_commits \<lparr>hash = ''def5678'', message = ''second''\<rparr> 1)]"
    by (simp add: parseLog_two mapSteps_def)
  then show ?thesis
    unfolding st by (simp add: two_commits_no_step_md mkStep_fields step_hasOutput_mkStep two_commits_output)
qed

text \<open>
  C6, amended.  A commit without \<open>STEP.md\<close> is never fatal: when the README and the log
  can be read the run completes, and for such a commit it produces a step whose title is
  the commit message and whose step file holds the non-empty synthetic text
  "# message", an empty line and "*No STEP.md found for this commit.*".  The step's
  \<open>hasOutput\<close> flag is decided by \<open>OUTPUT.md\<close> alone: true exactly when reading it at that
  commit gave a non-empty text (so false when \<open>OUTPUT.md\<close> is missing too).
\<close>

theorem C6_missing_step_md_is_recovered:
  assumes "snd (readReadme w) = Inr cfg" and "execSync w gitLogCommand = Inr logOutput"
    and "i < length (parseLog logOutput)"
    and "execSync w (gitShowCommand (hash (parseLog logOutput ! i)) ''STEP.md'') = Inl e"
  shows "\<exists>ops pd. sync_data w = (ops, Inr pd) \<and> i < length (steps pd)
     \<and> step_title (steps pd ! i) = message (parseLog logOutput ! i)
     \<and> WriteFileSync (destStepFile w i)
          (stepFileContent (message (parseLog logOutput ! i)) (hash (parseLog logOutput ! i)) (toString i)
             (''# '' @ message (parseLog logOutput ! i)
              @ ''\<newline>\<newline>*No STEP.md found for this commit.*'')) \<in> set ops
     \<and> ''# '' @ message (parseLog logOutput ! i) @ ''\<newline>\<newline>*No STEP.md found for this commit.*'' \<noteq> []
     \<and> step_hasOutput (steps pd ! i)
         = (\<exists>out. execSync w (gitShowCommand (hash (parseLog logOutput ! i)) ''OUTPUT.md'') = Inr out
                  \<and> out \<noteq> [])"
proof -
  let ?c = "parseLog logOutput ! i"
  from sync_data_total [OF assms(1,2)] obtain ops pd where run: "sync_data w = (ops, Inr pd)"
    by blast
  note st = steps_of_run [OF run assms(2)]
  note nar = stepNarrative_missing [OF assms(4)]
  have "i < length (steps pd)" using assms(3) by (simp add: st(1))
  moreover have "step_title (steps pd ! i) = message ?c"
    by (simp add: st(2) [OF assms(3)] step_title_mkStep nar)
  moreover have "WriteFileSync (destStepFile w i)
          (stepFileContent (message ?c) (hash ?c) (toString i)
             (''# '' @ message ?c @ ''\<newline>\<newline>*No STEP.md found for this commit.*'')) \<in> set ops"
    using step_file_written [OF run assms(2,3)] by (simp add: nar noStepText_def)
  moreover have "step_hasOutput (steps pd ! i)
         = (\<exists>out. execSync w (gitShowCommand (hash ?c) ''OUTPUT.md'') = Inr out \<and> out \<noteq> [])"
    by (simp add: st(2) [OF assms(3)] step_hasOutput_mkStep stepOutput_nonempty_iff)
  ultimately show ?thesis using run by auto
qed

theorem C6_witness:
  "step_title (steps (projr (snd (sync_data world_two_commits))) ! 1) = ''second''
   \<and> \<not> step_hasOutput (steps (projr (snd (sync_data world_two_commits))) ! 1)
   \<and> WriteFileSync (destStepFile world_two_commits 1)
        (stepFileContent ''second'' ''def5678'' ''1''
           ''# second\<newline>\<newline>*No STEP.md found for this commit.*'')
       \<in> set (fst (sync_data world_two_commits))"
proof -
  let ?log = "''abc1234 first\<newline>def5678 second\<newline>''"
  have i: "Suc 0 < length (parseLog ?log)" by (simp add: parseLog_two)
  have c: "parseLog ?log ! Suc 0 = \<lparr>hash = ''def5678'', message = ''second''\<rparr>"
    by (simp add: parseLog_two)
  have miss: "execSync world_two_commits (gitShowCommand (hash (parseLog ?log ! Suc 0)) ''STEP.md'')
              = Inl (ExecError 128)"
    by (simp add: c two_commits_no_step_md)
  have out: "execSync world_two_commits (gitShowCommand ''def5678'' ''OUTPUT.md'') = Inr []"
    by (simp add: world_two_commits_def example_world_def exec_table_def gitShowCommand_def
        gitLogCommand_def)
  from C6_missing_step_md_is_recovered [OF two_commits_readme two_commits_log i miss]
  show ?thesis
    by (auto simp: c out toString_small)
qed

text \<open>
  C7, as the specification states it, fails: \<open>getFileContent\<close> has two results, not
  three.  A path that is missing at the commit and a binary blob both give \<open>null\<close>, and
  \<open>getCommitFiles\<close> marks the unreadable path binary.
\<close>

theorem C7_counterexample:
  "execSyncBuffer world_blobs (gitShowCommand ''abc1234'' ''gone.txt'') = Inl (ExecError 128)
   \<and> execSyncBuffer world_blobs (gitShowCommand ''abc1234'' ''logo.png'') = Inr [137, 80, 0, 71]
   \<and> getFileContent world_blobs ''abc1234'' ''gone.txt''
       = getFileContent world_blobs ''abc1234'' ''logo.png''
   \<and> fileNodeOf world_blobs ''abc1234'' ''gone.txt'' = Inr (binaryNode ''gone.txt'')"
  by (simp add: getFileContent_eq fileNodeOf_eq world_blobs_gone world_blobs_logo)

text \<open>
  C7, amended.  For every commit and path \<open>getFileContent\<close> returns the decoded text
  (the read succeeded and the bytes hold no null byte) or \<open>null\<close> (the read failed, or a
  null byte), and never throws; \<open>getCommitFiles\<close> goes on after a \<open>null\<close>: it returns
  one node for every listed path, in the listed order, marked binary and without content
  where the read gave \<open>null\<close>, and carrying the text otherwise.
\<close>

theorem C7_text_or_null:
  "getFileContent w c p =
     Inr (case execSyncBuffer w (gitShowCommand c p) of
            Inl e \<Rightarrow> None
          | Inr buf \<Rightarrow> if 0 \<in> set buf then None else Some (toString_utf8 w buf))
   \<and> (\<forall>out. execSync w (lsTreeCommand c) = Inr out \<longrightarrow>
         (\<exists>ns. getCommitFiles w c = Inr ns
            \<and> map path ns = filterBoolean (split (CHR 0x0A) out)
            \<and> (\<forall>n \<in> set ns.
                  (getFileContent w c (path n) = Inr None \<longrightarrow> n = binaryNode (path n))
                  \<and> (\<forall>t. getFileContent w c (path n) = Inr (Some t) \<longrightarrow> n = textNode (path n) t))))"
proof (intro conjI allI impI)
  show "getFileContent w c p =
     Inr (case execSyncBuffer w (gitShowCommand c p) of
            Inl e \<Rightarrow> None
          | Inr buf \<Rightarrow> if 0 \<in> set buf then None else Some (toString_utf8 w buf))"
    by (rule getFileContent_eq)
next
  fix out
  assume "execSync w (lsTreeCommand c) = Inr out"
  from getCommitFiles_nodes [OF this]
  obtain ns where ns: "getCommitFiles w c = Inr ns"
      "map path ns = filterBoolean (split (CHR 0x0A) out)"
      "\<forall>n \<in> set ns. fileNodeOf w c (path n) = Inr n"
    by blast
  have "(getFileContent w c (path n) = Inr None \<longrightarrow> n = binaryNode (path n))
        \<and> (\<forall>t. getFileContent w c (path n) = Inr (Some t) \<longrightarrow> n = textNode (path n) t)"
    if "n \<in> set ns" for n
    using ns(3) that
    by (auto simp: fileNodeOf_def try_catch_def bind_def)
  with ns(1,2)
  show "\<exists>ns. getCommitFiles w c = Inr ns
            \<and> map path ns = filterBoolean (split (CHR 0x0A) out)
            \<and> (\<forall>n \<in> set ns.
                  (getFileContent w c (path n) = Inr None \<longrightarrow> n = binaryNode (path n))
                  \<and> (\<forall>t. getFileContent w c (path n) = Inr (Some t) \<longrightarrow> n = textNode (path n) t))"
    by blast
qed

theorem C7_witness:
  "getFileContent world_blobs ''abc1234'' ''gone.txt'' = Inr None
   \<and> map path (projr (getCommitFiles world_blobs ''abc1234'')) = [''a.txt'', ''gone.txt'', ''logo.png'']"
proof -
  from C7_text_or_null [of world_blobs "''abc1234''" "''gone.txt''"] world_blobs_lsTree
  show ?thesis
    by (auto simp: world_blobs_gone filterBoolean_def)
qed

text \<open>
  C8, as the specification states it, fails: the code replaces only \<open>-\<close> by a space, and
  takes the initials from the dash-separated parts of the repository name.  For \<open>my_repo\<close>
  the title is \<open>My_repo\<close>, not \<open>My Repo\<close>, and the document number \<open>M-2025\<close>, not
  \<open>MR-2025\<close>.
\<close>

theorem C8_counterexample:
  "repoName (projr (snd (sync_data world_underscore))) = ''my_repo''
   \<and> startDate (projr (snd (sync_data world_underscore))) = ''2025-11-30''
   \<and> title (projr (snd (sync_data world_underscore))) = ''My_repo''
   \<and> spec_title ''my_repo'' = ''My Repo''
   \<and> docNumber (projr (snd (sync_data world_underscore))) = ''M-2025''
   \<and> spec_docNumber ''my_repo'' ''2025-11-30'' = ''MR-2025''"
proof -
  note f = sync_data_fields [OF underscore_run]
  have cfg: "snd (readReadme world_underscore) = Inr emptyConfig"
    by (simp add: readReadme_def world_underscore_def example_world_def)
  have n: "repoName (projr (snd (sync_data world_underscore))) = ''my_repo''"
    by (simp add: f(2) underscore_repoInfo)
  have d: "startDate (projr (snd (sync_data world_underscore))) = ''2025-11-30''"
    by (simp add: f(3) underscore_dates)
  from f(1) cfg n d show ?thesis
    by (auto simp: emptyConfig_def or_else_None underscore_defaults)
qed

text \<open>
  C8, amended.  When the README is absent or has no front matter, and the repository name
  is made of word characters (letters, digits, \<open>_\<close>) and \<open>-\<close>: the title is the
  dash-separated parts of the name joined by single spaces, each with its first character
  in upper case (\<open>_\<close> is no separator and stays); the document number is the upper-cased
  first characters of the words of that title, then \<open>-\<close> and the text before the first
  \<open>-\<close> of the start date.  The start date is the first word of what
  \<open>git log --reverse --format="%ai" | head -1\<close> prints (the date of the oldest commit)
  when that command succeeds, and the date of the clock when it fails; so the year in the
  document number is the run of digits that starts the date git printed, and the year of
  the clock when the command failed.  For a name without \<open>_\<close> title and document number
  are what the specification says, for that start date.
\<close>

theorem C8_default_title_and_docNumber:
  assumes "sync_data w = (ops, Inr pd)"
    and "\<not> existsSync w (path_join (SOURCE_REPO w) ''README.md'')
         \<or> (\<exists>raw. readFileSync w (path_join (SOURCE_REPO w) ''README.md'') = Inr raw
                   \<and> frontmatterMatch raw = None)"
    and "list_all (\<lambda>c. isWord c \<or> c = CHR ''-'') (repoName pd)"
  shows "title pd = join '' '' (map capitalize (split (CHR ''-'') (repoName pd)))
     \<and> docNumber pd = initials (split (CHR '' '') (title pd)) @ ''-''
                        @ takeWhile (\<lambda>c. c \<noteq> CHR ''-'') (startDate pd)
     \<and> startDate pd = (case execSync w firstDateCommand of
                         Inr out \<Rightarrow> takeWhile (\<lambda>c. c \<noteq> CHR '' '') (trim out)
                       | Inl e \<Rightarrow> takeWhile (\<lambda>c. c \<noteq> CHR ''T'') (nowISO w))
     \<and> (\<forall>y rest. list_all isDigit y
            \<and> (execSync w firstDateCommand = Inr (y @ CHR ''-'' # rest)
                 \<or> (\<exists>e. execSync w firstDateCommand = Inl e) \<and> nowISO w = y @ CHR ''-'' # rest) \<longrightarrow>
           docNumber pd = initials (split (CHR '' '') (title pd)) @ ''-'' @ y)
     \<and> (CHR ''_'' \<notin> set (repoName pd) \<longrightarrow>
           title pd = spec_title (repoName pd)
           \<and> docNumber pd = spec_docNumber (repoName pd) (startDate pd))"
proof -
  let ?ws = "split (CHR ''-'') (repoName pd)"
  note f = sync_data_fields [OF assms(1)]
  note cfg = readReadme_no_frontmatter [OF assms(2)]
  from f(1) cfg have t0: "title pd = defaultTitle (repoName pd)"
    and d0: "docNumber pd = defaultDocNumber (repoName pd) (startDate pd)"
    by (auto simp: emptyConfig_def or_else_None)
  have t: "title pd = join '' '' (map capitalize ?ws)"
    by (simp only: t0 defaultTitle_words [OF assms(3)])
  have w: "split (CHR '' '') (title pd) = map capitalize ?ws"
    unfolding t by (rule split_title_words [OF assms(3)])
  have d: "docNumber pd = initials (split (CHR '' '') (title pd)) @ ''-''
                        @ takeWhile (\<lambda>c. c \<noteq> CHR ''-'') (startDate pd)"
    by (simp only: d0 defaultDocNumber_initials w initials_capitalize)
  note s = startDate_of_run [OF assms(1)]
  have y: "docNumber pd = initials (split (CHR '' '') (title pd)) @ ''-'' @ y"
    if "list_all isDigit y
          \<and> (execSync w firstDateCommand = Inr (y @ CHR ''-'' # rest)
               \<or> (\<exists>e. execSync w firstDateCommand = Inl e) \<and> nowISO w = y @ CHR ''-'' # rest)"
    for y rest
  proof -
    from that have dig: "list_all isDigit y" by simp
    from that have "takeWhile (\<lambda>c. c \<noteq> CHR ''-'') (startDate pd) = y"
    proof (elim conjE disjE exE)
      assume "execSync w firstDateCommand = Inr (y @ CHR ''-'' # rest)"
      then have "startDate pd = takeWhile (\<lambda>c. c \<noteq> CHR '' '') (trim (y @ CHR ''-'' # rest))"
        by (simp add: s)
      then show ?thesis by (simp only: year_of_git_date [OF dig])
    next
      fix e
      assume "execSync w firstDateCommand = Inl e" and "nowISO w = y @ CHR ''-'' # rest"
      then have "startDate pd = takeWhile (\<lambda>c. c \<noteq> CHR ''T'') (y @ CHR ''-'' # rest)"
        by (simp add: s)
      then show ?thesis by (simp only: year_of_clock_date [OF dig])
    qed
    with d show ?thesis by (simp only:)
  qed
  have u: "title pd = spec_title (repoName pd)
           \<and> docNumber pd = spec_docNumber (repoName pd) (startDate pd)"
    if "CHR ''_'' \<notin> set (repoName pd)"
  proof -
    have st: "spec_title (repoName pd) = title pd"
      by (simp only: t spec_title_no_underscore [OF assms(3) that])
    then show ?thesis
      using d by (simp add: spec_docNumber_def)
  qed
  from t d s y u show ?thesis by blast
qed

theorem C8_witness:
  "title (projr (snd (sync_data world_dashed))) = ''My Repo''
   \<and> docNumber (projr (snd (sync_data world_dashed))) = ''MR-2025''
   \<and> execSync world_two_commits firstDateCommand = Inl (ExecError 128)
   \<and> docNumber (projr (snd (sync_data world_two_commits))) = ''MR-2026''"
proof -
  let ?pd = "projr (snd (sync_data world_dashed))"
  note f = sync_data_fields [OF dashed_run]
  have n: "repoName ?pd = ''my-repo''" by (simp add: f(2) dashed_repoInfo)
  have nofm: "\<not> existsSync world_dashed (path_join (SOURCE_REPO world_dashed) ''README.md'')
      \<or> (\<exists>raw. readFileSync world_dashed (path_join (SOURCE_REPO world_dashed) ''README.md'') = Inr raw
                \<and> frontmatterMatch raw = None)"
    by (simp add: world_dashed_def example_world_def)
  have name: "list_all (\<lambda>c. isWord c \<or> c = CHR ''-'') (repoName ?pd)"
    by (simp only: n dashed_words)
  have date: "execSync world_dashed firstDateCommand = Inr (''2025'' @ CHR ''-'' # ''11-30 10:00:00 +0000\<newline>'')"
    by (simp add: world_dashed_def example_world_def exec_table_def firstDateCommand_def
        gitLogCommand_def)
  note A = C8_default_title_and_docNumber [OF dashed_run nofm name]
  from A have t: "title ?pd = join '' '' (map capitalize (split (CHR ''-'') (repoName ?pd)))"
    by blast
  from A year_digits(2) date
  have dd: "docNumber ?pd = initials (split (CHR '' '') (title ?pd)) @ ''-'' @ ''2025''"
    by blast
  have t': "title ?pd = ''My Repo''"
    by (simp only: t n dashed_words(1))
  have one: "title ?pd = ''My Repo'' \<and> docNumber ?pd = ''MR-2025''"
    by (simp only: dd t' clock_words(2))
  let ?pe = "projr (snd (sync_data world_two_commits))"
  note g = sync_data_fields [OF two_commits_run]
  have n2: "repoName ?pe = ''my-repo''" by (simp add: g(2) two_commits_repoInfo)
  have nofm2: "\<not> existsSync world_two_commits (path_join (SOURCE_REPO world_two_commits) ''README.md'')
      \<or> (\<exists>raw. readFileSync world_two_commits (path_join (SOURCE_REPO world_two_commits) ''README.md'') = Inr raw
                \<and> frontmatterMatch raw = None)"
    by (simp add: world_two_commits_def example_world_def)
  have name2: "list_all (\<lambda>c. isWord c \<or> c = CHR ''-'') (repoName ?pe)"
    by (simp only: n2 dashed_words)
  have clock: "nowISO world_two_commits = ''2026'' @ CHR ''-'' # ''01-01T00:00:00.000Z''"
    by (simp add: world_two_commits_def example_world_def)
  note B = C8_default_title_and_docNumber [OF two_commits_run nofm2 name2]
  from B have t2: "title ?pe = join '' '' (map capitalize (split (CHR ''-'') (repoName ?pe)))"
    by blast
  from B year_digits(1) two_commits_no_date clock
  have de: "docNumber ?pe = initials (split (CHR '' '') (title ?pe)) @ ''-'' @ ''2026''"
    by blast
  have t2': "title ?pe = ''My Repo''"
    by (simp only: t2 n2 dashed_words(1))
  have two: "docNumber ?pe = ''MR-2026''"
    by (simp only: de t2' clock_words(1))
  from one two two_commits_no_date show ?thesis by simp
qed

text \<open>
  C9, as the specification states it, fails for \<open>getCommitFiles\<close>: when \<open>git ls-tree\<close>
  lists the files and \<open>git show\<close> fails for one of them, the result is not the empty
  list but the whole list, with that file marked binary.
\<close>

theorem C9_counterexample:
  "execSync world_blobs (lsTreeCommand ''abc1234'') = Inr ''a.txt\<newline>gone.txt\<newline>logo.png\<newline>''
   \<and> execSyncBuffer world_blobs (gitShowCommand ''abc1234'' ''gone.txt'') = Inl (ExecError 128)
   \<and> map path (projr (getCommitFiles world_blobs ''abc1234'')) = [''a.txt'', ''gone.txt'', ''logo.png'']
   \<and> map isBinary (projr (getCommitFiles world_blobs ''abc1234'')) = [None, Some True, Some True]
   \<and> getCommitFiles world_blobs ''abc1234'' \<noteq> Inr []"
proof -
  have a: "execSyncBuffer world_blobs (gitShowCommand ''abc1234'' ''a.txt'') = Inr [104, 105]"
    by (simp add: world_blobs_def example_world_def buffer_table_def gitShowCommand_def)
  have nul: "(0 :: 8 word) \<notin> set [104, 105]" by simp
  have ps: "filterBoolean (split (CHR 0x0A) ''a.txt\<newline>gone.txt\<newline>logo.png\<newline>'')
            = [''a.txt'', ''gone.txt'', ''logo.png'']"
    by (simp add: filterBoolean_def)
  have "getCommitFiles world_blobs ''abc1234''
        = Inr [textNode ''a.txt'' (toString_utf8 world_blobs [104, 105]),
               binaryNode ''gone.txt'', binaryNode ''logo.png'']"
    unfolding getCommitFiles_eq world_blobs_lsTree
    by (simp only: sum.case ps list.map a world_blobs_gone world_blobs_logo nul if_False) simp
  then show ?thesis
    by (simp add: world_blobs_lsTree world_blobs_gone textNode_def binaryNode_def)
qed

text \<open>
  C9, amended.  \<open>getFileContent\<close>, \<open>getChangedFiles\<close> and \<open>getCommitFiles\<close> return a
  value for every commit and path, whatever the child processes do.  When the git command
  of the accessor itself fails the value is \<open>null\<close>, the empty list and the empty list.
  When \<open>git ls-tree\<close> succeeds, \<open>getCommitFiles\<close> returns one node for every listed
  path, and a listed path whose \<open>git show\<close> fails is a node marked binary: the result is
  the empty list only when \<open>git ls-tree\<close> failed or listed no path.
\<close>

theorem C9_accessors_never_throw_failure_values:
  "(\<exists>v. getFileContent w c p = Inr v)
   \<and> (\<exists>v. getChangedFiles w c = Inr v)
   \<and> (\<exists>v. getCommitFiles w c = Inr v)
   \<and> (\<forall>e. execSyncBuffer w (gitShowCommand c p) = Inl e \<longrightarrow> getFileContent w c p = Inr None)
   \<and> (\<forall>e. execSync w (changedFilesCommand c) = Inl e \<longrightarrow> getChangedFiles w c = Inr [])
   \<and> (\<forall>e. execSync w (lsTreeCommand c) = Inl e \<longrightarrow> getCommitFiles w c = Inr [])
   \<and> (\<forall>out. execSync w (lsTreeCommand c) = Inr out \<longrightarrow>
         (\<exists>ns. getCommitFiles w c = Inr ns
            \<and> map path ns = filterBoolean (split (CHR 0x0A) out)
            \<and> (\<forall>q \<in> set (filterBoolean (split (CHR 0x0A) out)). \<forall>e.
                  execSyncBuffer w (gitShowCommand c q) = Inl e \<longrightarrow> binaryNode q \<in> set ns)))
   \<and> (getCommitFiles w c = Inr [] \<longleftrightarrow>
         (\<exists>e. execSync w (lsTreeCommand c) = Inl e)
         \<or> (\<exists>out. execSync w (lsTreeCommand c) = Inr out \<and> filterBoolean (split (CHR 0x0A) out) = []))"
proof -
  have listed: "\<exists>ns. getCommitFiles w c = Inr ns
            \<and> map path ns = filterBoolean (split (CHR 0x0A) out)
            \<and> (\<forall>q \<in> set (filterBoolean (split (CHR 0x0A) out)). \<forall>e.
                  execSyncBuffer w (gitShowCommand c q) = Inl e \<longrightarrow> binaryNode q \<in> set ns)"
    if ls: "execSync w (lsTreeCommand c) = Inr out" for out
  proof -
    from getCommitFiles_nodes [OF ls]
    obtain ns where ns: "getCommitFiles w c = Inr ns"
        "map path ns = filterBoolean (split (CHR 0x0A) out)"
        "\<forall>q \<in> set (filterBoolean (split (CHR 0x0A) out)).
            \<forall>n. fileNodeOf w c q = Inr n \<longrightarrow> find (\<lambda>f. path f = q) ns = Some n"
      by blast
    have "binaryNode q \<in> set ns"
      if q: "q \<in> set (filterBoolean (split (CHR 0x0A) out))"
        and e: "execSyncBuffer w (gitShowCommand c q) = Inl e" for q e
    proof -
      have "fileNodeOf w c q = Inr (binaryNode q)" by (simp add: fileNodeOf_eq e)
      with ns(3) q have "find (\<lambda>f. path f = q) ns = Some (binaryNode q)" by blast
      then show ?thesis by (auto simp: find_Some_iff)
    qed
    with ns(1,2) show ?thesis by blast
  qed
  have empty: "getCommitFiles w c = Inr [] \<longleftrightarrow>
         (\<exists>e. execSync w (lsTreeCommand c) = Inl e)
         \<or> (\<exists>out. execSync w (lsTreeCommand c) = Inr out \<and> filterBoolean (split (CHR 0x0A) out) = [])"
    by (cases "execSync w (lsTreeCommand c)") (simp_all add: getCommitFiles_eq)
  have "(\<exists>v. getFileContent w c p = Inr v)
   \<and> (\<exists>v. getChangedFiles w c = Inr v)
   \<and> (\<exists>v. getCommitFiles w c = Inr v)
   \<and> (\<forall>e. execSyncBuffer w (gitShowCommand c p) = Inl e \<longrightarrow> getFileContent w c p = Inr None)
   \<and> (\<forall>e. execSync w (changedFilesCommand c) = Inl e \<longrightarrow> getChangedFiles w c = Inr [])
   \<and> (\<forall>e. execSync w (lsTreeCommand c) = Inl e \<longrightarrow> getCommitFiles w c = Inr [])"
    by (simp add: getFileContent_eq getChangedFiles_eq getCommitFiles_eq)
  with listed empty show ?thesis by blast
qed

theorem C9_witness:
  "getFileContent (example_world []) ''abc1234'' ''a.txt'' = Inr None
   \<and> getChangedFiles (example_world []) ''abc1234'' = Inr []
   \<and> getCommitFiles (example_world []) ''abc1234'' = Inr []
   \<and> getFileContent world_blobs ''abc1234'' ''gone.txt'' = Inr None
   \<and> binaryNode ''gone.txt'' \<in> set (projr (getCommitFiles world_blobs ''abc1234''))"
proof -
  have a: "execSyncBuffer (example_world []) (gitShowCommand ''abc1234'' ''a.txt'') = Inl (ExecError 128)"
    by (simp add: example_world_def)
  have b: "execSync (example_world []) (changedFilesCommand ''abc1234'') = Inl (ExecError 128)"
    by (simp add: example_world_def exec_table_def)
  have c: "execSync (example_world []) (lsTreeCommand ''abc1234'') = Inl (ExecError 128)"
    by (simp add: example_world_def exec_table_def)
  have listed: "''gone.txt'' \<in> set (filterBoolean (split (CHR 0x0A) ''a.txt\<newline>gone.txt\<newline>logo.png\<newline>''))"
    by (simp add: filterBoolean_def)
  from C9_accessors_never_throw_failure_values [of "example_world []" "''abc1234''" "''a.txt''"] a b c
  have first: "getFileContent (example_world []) ''abc1234'' ''a.txt'' = Inr None
   \<and> getChangedFiles (example_world []) ''abc1234'' = Inr []
   \<and> getCommitFiles (example_world []) ''abc1234'' = Inr []"
    by blast
  from C9_accessors_never_throw_failure_values [of world_blobs "''abc1234''" "''gone.txt''"]
       world_blobs_lsTree world_blobs_gone listed
  have "getFileContent world_blobs ''abc1234'' ''gone.txt'' = Inr None
   \<and> binaryNode ''gone.txt'' \<in> set (projr (getCommitFiles world_blobs ''abc1234''))"
    by fastforce
  with first show ?thesis by blast
qed

text \<open>
  C10.  For every commit of a completed run, the step's \<open>hasOutput\<close> flag is true exactly
  when reading \<open>OUTPUT.md\<close> at that commit succeeded with a non-empty text; an
  \<open>OUTPUT.md\<close> that exists but is empty gives \<open>hasOutput = false\<close>; and the run writes
  the step's output file exactly when the flag is true.
\<close>

theorem C10_hasOutput_iff_output_nonempty:
  assumes "sync_data w = (ops, Inr pd)" and "execSync w gitLogCommand = Inr logOutput"
    and "i < length (parseLog logOutput)"
  shows "(step_hasOutput (steps pd ! i)
            = (\<exists>out. execSync w (gitShowCommand (hash (parseLog logOutput ! i)) ''OUTPUT.md'') = Inr out
                     \<and> out \<noteq> []))
         \<and> (execSync w (gitShowCommand (hash (parseLog logOutput ! i)) ''OUTPUT.md'') = Inr []
              \<longrightarrow> \<not> step_hasOutput (steps pd ! i))
         \<and> ((\<exists>t. WriteFileSync (destOutputFile w i) t \<in> set ops) = step_hasOutput (steps pd ! i))"
proof -
  let ?c = "parseLog logOutput ! i"
  have st: "steps pd ! i = snd (mkStep w ?c i)"
    using assms(3) by (simp add: sync_data_Inr(1) [OF assms(1,2)] length_mapSteps nth_mapSteps)
  have flag: "step_hasOutput (steps pd ! i) = (stepOutput w ?c \<noteq> [])"
    by (simp add: st step_hasOutput_mkStep)
  show ?thesis
    using output_written_iff [OF assms] flag stepOutput_nonempty_iff [of w ?c] by auto
qed

theorem C10_witness:
  "step_hasOutput (steps (projr (snd (sync_data world_two_commits))) ! 0)
   \<and> \<not> step_hasOutput (steps (projr (snd (sync_data world_two_commits))) ! 1)
   \<and> (\<exists>t. WriteFileSync (destOutputFile world_two_commits 0) t \<in> set (fst (sync_data world_two_commits)))
   \<and> \<not> (\<exists>t. WriteFileSync (destOutputFile world_two_commits 1) t \<in> set (fst (sync_data world_two_commits)))"
proof -
  let ?w = world_two_commits
  let ?log = "''abc1234 first\<newline>def5678 second\<newline>''"
  have log: "execSync ?w gitLogCommand = Inr ?log"
    by (simp add: world_two_commits_def example_world_def exec_table_def)
  have "snd (readReadme ?w) = Inr emptyConfig"
    by (simp add: readReadme_def world_two_commits_def example_world_def)
  from sync_data_total [OF this log]
  have run: "sync_data ?w = (fst (sync_data ?w), Inr (projr (snd (sync_data ?w))))"
    by auto
  have out0: "execSync ?w (gitShowCommand (hash (parseLog ?log ! 0)) ''OUTPUT.md'') = Inr ''ok\<newline>''"
    by (simp add: parseLog_two world_two_commits_def example_world_def exec_table_def gitShowCommand_def gitLogCommand_def)
  have out1: "execSync ?w (gitShowCommand (hash (parseLog ?log ! Suc 0)) ''OUTPUT.md'') = Inr []"
    by (simp add: parseLog_two world_two_commits_def example_world_def exec_table_def gitShowCommand_def gitLogCommand_def)
  have len: "0 < length (parseLog ?log)" "Suc 0 < length (parseLog ?log)"
    by (simp_all add: parseLog_two)
  from C10_hasOutput_iff_output_nonempty [OF run log len(1)]
       C10_hasOutput_iff_output_nonempty [OF run log len(2)]
  show ?thesis by (simp add: out0 out1)
qed

end
